theory Spec2Isabelle
  imports Complex_Main "HOL-Library.Sublist" "HOL-Library.Multiset"
  "HOL-Library.Log_Nat"
begin

section \<open>JavaScript strings\<close>

text \<open>
  A JavaScript string is a sequence of UTF-16 code units; \<open>length\<close> counts code units, and
  a regular expression without the \<open>u\<close> flag reads the string one code unit at a time.
  A string is modelled as the list of its code units, each a natural number.
  \<open>units\<close> writes an ASCII literal; characters outside ASCII are given by their number
  (\<open>186\<close> is the ordinal indicator of "n.o" as the bulletin writes it).
\<close>

type_synonym jsstring = "nat list"

definition units :: "string \<Rightarrow> jsstring" where
  "units s = map of_char s"

text \<open>
  The characters \<open>\s\<close> matches and \<open>String.prototype.trim\<close> strips: WhiteSpace and
  LineTerminator of ECMAScript (tab, LF, VT, FF, CR, space, NBSP, U+1680, U+2000 to U+200A,
  U+2028, U+2029, U+202F, U+205F, U+3000, U+FEFF).
\<close>

definition isSpace :: "nat \<Rightarrow> bool" where
  "isSpace c = (c = 9 \<or> c = 10 \<or> c = 11 \<or> c = 12 \<or> c = 13 \<or> c = 32 \<or> c = 160 \<or> c = 5760
      \<or> (8192 \<le> c \<and> c \<le> 8202) \<or> c = 8232 \<or> c = 8233 \<or> c = 8239 \<or> c = 8287
      \<or> c = 12288 \<or> c = 65279)"

definition trim :: "jsstring \<Rightarrow> jsstring" where
  "trim s = rev (dropWhile isSpace (rev (dropWhile isSpace s)))"

section \<open>Line reconstruction (extractTextFromPdf)\<close>

text \<open>
  The decoder (pdf.js) is outside the repository: \<open>getTextContent\<close> gives, for each page,
  a list of text items. Of an item the parser reads \<open>str\<close>, \<open>transform[4]\<close>,
  \<open>transform[5]\<close> and \<open>hasEOL\<close>.
\<close>

subsection \<open>Numbers\<close>

text \<open>
  Coordinates are JavaScript numbers, that is IEEE 754 doubles. A finite double is a real
  number, and the only arithmetic the parser does on coordinates is subtraction, whose
  result is the exact difference rounded to the nearest double, ties to the even mantissa.
  \<open>double v\<close> is that rounding: the doubles are the integer multiples \<open>k * 2^s / 2^1074\<close>
  with \<open>k < 2^53\<close>, and \<open>s\<close> is the number of bits by which \<open>\<bar>v\<bar> * 2^1074\<close> exceeds 53 bits
  (0 in the subnormal range). Comparison and \<open>Math.abs\<close> are exact. Not modelled: NaN and
  infinite coordinates; a difference beyond the largest double (about \<open>1.8 * 10^308\<close>),
  which is an infinity in JavaScript and a finite number of the same sign here, with
  the same outcome of every test the parser makes of it; and the sign of zero, which no
  comparison of the parser can see.
\<close>

definition roundEven :: "real \<Rightarrow> int" where
  "roundEven v =
     (let r = \<lfloor>v\<rfloor>; f = v - of_int r in
      if f < 1 / 2 then r else if 1 / 2 < f then r + 1 else if even r then r else r + 1)"

definition double :: "real \<Rightarrow> real" where
  "double v =
     (let m = \<bar>v\<bar> * 2 ^ 1074; shift = floorlog 2 (nat \<lfloor>m\<rfloor>) - 53 in
      sgn v * (of_int (roundEven (m / 2 ^ shift)) * 2 ^ shift / 2 ^ 1074))"

subsection \<open>Items and lines\<close>

record TextItem =
  str :: jsstring
  transform4 :: real
  transform5 :: real
  hasEOL :: bool

record PageItem =
  item_text :: jsstring
  item_y :: real
  item_x :: real
  hasEol :: bool

record TextLine =
  line_text :: jsstring
  line_y :: real
  isBold :: bool
  page :: nat


text \<open>The comparator handed to \<open>pageItems.sort\<close>.\<close>

definition compareItems :: "PageItem \<Rightarrow> PageItem \<Rightarrow> real" where
  "compareItems a b =
     (if \<bar>double (item_y a - item_y b)\<bar> > 2 then double (item_y b - item_y a)
      else double (item_x a - item_x b))"















text \<open>
  A page whose rows are apart, as the comparator sees them: for two runs the heights are
  the same or their computed difference exceeds 2 in absolute value, and two runs of the
  same height whose computed difference of X is zero are the same run. \<open>before\<close> is the
  reading order of two page items: higher first, then further left.
\<close>

definition separated :: "TextItem list \<Rightarrow> bool" where
  "separated p =
     (\<forall>a \<in> set p. \<forall>b \<in> set p.
        (transform5 a = transform5 b \<or> \<bar>double (transform5 a - transform5 b)\<bar> > 2) \<and>
        (transform5 a = transform5 b \<and> double (transform4 a - transform4 b) = 0 \<longrightarrow> a = b))"



section \<open>Regular expressions\<close>

text \<open>
  The patterns of the parser are written as terms of \<open>regex\<close>, one constructor for each
  construct they use: a character class (\<open>Cls\<close>, one code unit; \<open>CpCls\<close>, one code point,
  as a pattern with the \<open>u\<close> flag reads the string), \<open>^\<close> and \<open>$\<close> (\<open>Bol\<close>, \<open>Eol\<close>;
  no pattern has the \<open>m\<close> flag), concatenation, alternation, the greedy and the lazy star,
  a capture group and the negative lookahead \<open>(?!...)\<close>.
\<close>

datatype regex =
    Cls "nat \<Rightarrow> bool"
  | CpCls "nat \<Rightarrow> bool"
  | Bol
  | Eol
  | Eps
  | Seq regex regex
  | Alt regex regex
  | Star regex
  | LazyStar regex
  | Group nat regex
  | NotAhead regex

type_synonym captures = "nat \<rightharpoonup> jsstring"

text \<open>
  A matcher state: whether the position is the start of the input, the input from the
  position on, and the captures so far.
\<close>

type_synonym mstate = "bool \<times> jsstring \<times> captures"

text \<open>The code point at the head of a string: a surrogate pair is one code point.\<close>

fun nextCodePoint :: "jsstring \<Rightarrow> (nat \<times> jsstring) option" where
  "nextCodePoint [] = None"
| "nextCodePoint [u] = Some (u, [])"
| "nextCodePoint (h # l # s) =
     (if 55296 \<le> h \<and> h \<le> 56319 \<and> 56320 \<le> l \<and> l \<le> 57343
      then Some ((h - 55296) * 1024 + (l - 56320) + 65536, s)
      else Some (h, l # s))"

text \<open>
  \<open>ms p st\<close> lists the states in which a match of \<open>p\<close> from \<open>st\<close> can end, in the order in
  which the backtracking matcher of ECMAScript tries them: the left alternative before
  the right one, the longer repetition before the shorter one for a greedy star, the
  shorter one first for a lazy star. An iteration of a star that consumes nothing is
  rejected, as ECMAScript does. The head of the list is the match the engine reports.
\<close>

fun ms :: "regex \<Rightarrow> mstate \<Rightarrow> mstate list" where
  "ms (Cls P) (b, s, c) = (case s of [] \<Rightarrow> [] | u # r \<Rightarrow> if P u then [(False, r, c)] else [])"
| "ms (CpCls P) (b, s, c) =
     (case nextCodePoint s of
        None \<Rightarrow> []
      | Some (cp, r) \<Rightarrow> if P cp then [(False, r, c)] else [])"
| "ms Bol (b, s, c) = (if b then [(b, s, c)] else [])"
| "ms Eol (b, s, c) = (if s = [] then [(b, s, c)] else [])"
| "ms Eps st = [st]"
| "ms (Seq p q) st = concat (map (ms q) (ms p st))"
| "ms (Alt p q) st = ms p st @ ms q st"
| "ms (Star p) (b, s, c) =
     concat (map (\<lambda>(b', s', c'). if length s' < length s then ms (Star p) (b', s', c') else [])
                 (ms p (b, s, c))) @ [(b, s, c)]"
| "ms (LazyStar p) (b, s, c) =
     (b, s, c) #
     concat (map (\<lambda>(b', s', c'). if length s' < length s then ms (LazyStar p) (b', s', c') else [])
                 (ms p (b, s, c)))"
| "ms (Group n p) (b, s, c) =
     map (\<lambda>(b', s', c'). (b', s', c'(n \<mapsto> take (length s - length s') s))) (ms p (b, s, c))"
| "ms (NotAhead p) st = (if ms p st = [] then [st] else [])"

declare ms.simps(8) [simp del]
declare ms.simps(9) [simp del]

text \<open>One further iteration of a star, taken only when the last one consumed input.\<close>

definition starNext :: "regex \<Rightarrow> nat \<Rightarrow> mstate \<Rightarrow> mstate list" where
  "starNext p n st =
     (case st of (b', s', c') \<Rightarrow> if length s' < n then ms (Star p) (b', s', c') else [])"

definition lazyNext :: "regex \<Rightarrow> nat \<Rightarrow> mstate \<Rightarrow> mstate list" where
  "lazyNext p n st =
     (case st of (b', s', c') \<Rightarrow> if length s' < n then ms (LazyStar p) (b', s', c') else [])"

definition isDigit :: "nat \<Rightarrow> bool" where
  "isDigit c = (48 \<le> c \<and> c \<le> 57)"

definition isLineTerminator :: "nat \<Rightarrow> bool" where
  "isLineTerminator c = (c = 10 \<or> c = 13 \<or> c = 8232 \<or> c = 8233)"

text \<open>
  Under the \<open>i\<close> flag (without \<open>u\<close>) two code units match when their Canonicalize values
  agree: the upper-case mapping, unless it is longer than one unit or maps a unit of 128 or
  more below 128. The table is given for the units below 256, where every character of the
  parser's patterns lies; the micro sign and y with diaeresis, whose capitals lie above 255,
  and the units from 256 on are left as they are: none of them is Canonicalize-equal to a
  character of a pattern.
\<close>

definition canonicalize :: "nat \<Rightarrow> nat" where
  "canonicalize ch =
     (if (97 \<le> ch \<and> ch \<le> 122) \<or> (224 \<le> ch \<and> ch \<le> 254 \<and> ch \<noteq> 247) then ch - 32
      else ch)"

definition chr :: "nat \<Rightarrow> regex" where
  "chr c = Cls (\<lambda>u. u = c)"

definition chrI :: "nat \<Rightarrow> regex" where
  "chrI c = Cls (\<lambda>u. canonicalize u = canonicalize c)"

text \<open>A class \<open>[...]\<close> of single characters, and a range \<open>[lo-hi]\<close>, under the \<open>i\<close> flag.\<close>

definition inClassI :: "jsstring \<Rightarrow> nat \<Rightarrow> bool" where
  "inClassI cs u = (canonicalize u \<in> set (map canonicalize cs))"

definition inRangeI :: "nat \<Rightarrow> nat \<Rightarrow> nat \<Rightarrow> bool" where
  "inRangeI lo hi u = (canonicalize lo \<le> canonicalize u \<and> canonicalize u \<le> canonicalize hi)"

fun lit :: "jsstring \<Rightarrow> regex" where
  "lit [] = Eps"
| "lit (c # cs) = Seq (chr c) (lit cs)"

fun litI :: "jsstring \<Rightarrow> regex" where
  "litI [] = Eps"
| "litI (c # cs) = Seq (chrI c) (litI cs)"

fun seqs :: "regex list \<Rightarrow> regex" where
  "seqs [] = Eps"
| "seqs (p # ps) = Seq p (seqs ps)"

fun alts :: "regex list \<Rightarrow> regex" where
  "alts [] = NotAhead Eps"
| "alts [p] = p"
| "alts (p # ps) = Alt p (alts ps)"

text \<open>\<open>p+\<close> and the greedy \<open>p?\<close>.\<close>

definition many1 :: "regex \<Rightarrow> regex" where
  "many1 p = Seq p (Star p)"

definition optional :: "regex \<Rightarrow> regex" where
  "optional p = Alt p Eps"

definition digit :: regex where
  "digit = Cls isDigit"

definition space :: regex where
  "space = Cls isSpace"

definition anyChar :: regex where
  "anyChar = Cls (\<lambda>u. \<not> isLineTerminator u)"

text \<open>The first match of \<open>r\<close> that starts at the head of \<open>s\<close>: the rest of the input and the captures.\<close>

definition matchAt :: "regex \<Rightarrow> bool \<Rightarrow> jsstring \<Rightarrow> (jsstring \<times> captures) option" where
  "matchAt r b s =
     (case ms r (b, s, Map.empty) of [] \<Rightarrow> None | (b', s', c) # _ \<Rightarrow> Some (s', c))"

text \<open>
  \<open>RegExp.prototype.exec\<close> for a pattern without the \<open>g\<close> and \<open>y\<close> flags: the leftmost
  position with a match. The result is the input from that position, the input after the
  match, and the captures.
\<close>

fun exec :: "regex \<Rightarrow> bool \<Rightarrow> jsstring \<Rightarrow> (jsstring \<times> jsstring \<times> captures) option" where
  "exec r b [] = (case matchAt r b [] of None \<Rightarrow> None | Some (s', c) \<Rightarrow> Some ([], s', c))"
| "exec r b (u # s) =
     (case matchAt r b (u # s) of
        None \<Rightarrow> exec r False s
      | Some (s', c) \<Rightarrow> Some (u # s, s', c))"

definition test :: "regex \<Rightarrow> jsstring \<Rightarrow> bool" where
  "test r s = (exec r True s \<noteq> None)"

text \<open>\<open>match[0]\<close> and \<open>match[n]\<close> of an \<open>exec\<close> result (an unmatched group is \<open>undefined\<close>).\<close>

definition matched :: "jsstring \<times> jsstring \<times> captures \<Rightarrow> jsstring" where
  "matched m = (case m of (s, s', c) \<Rightarrow> take (length s - length s') s)"

definition capture :: "jsstring \<times> jsstring \<times> captures \<Rightarrow> nat \<Rightarrow> jsstring option" where
  "capture m n = (case m of (s, s', c) \<Rightarrow> c n)"

fun startsWith :: "jsstring \<Rightarrow> jsstring \<Rightarrow> bool" where
  "startsWith s [] = True"
| "startsWith [] (p # ps) = False"
| "startsWith (u # s) (p # ps) = (u = p \<and> startsWith s ps)"

fun includesStr :: "jsstring \<Rightarrow> jsstring \<Rightarrow> bool" where
  "includesStr [] sub = (sub = [])"
| "includesStr (u # s) sub = (startsWith (u # s) sub \<or> includesStr s sub)"

text \<open>
  \<open>String.prototype.replace\<close> with a pattern that has the \<open>g\<close> flag: every match, found
  from left to right, each search starting where the last match ended, is replaced by
  \<open>f\<close> of its captures. With the \<open>u\<close> flag (\<open>uni\<close>) the search moves on by a code point
  where no match starts, else by a code unit. After a match that consumes nothing the
  search moves on by one character, which is kept.
\<close>

fun replaceAll ::
  "bool \<Rightarrow> regex \<Rightarrow> (captures \<Rightarrow> jsstring) \<Rightarrow> bool \<Rightarrow> jsstring \<Rightarrow> jsstring" where
  "replaceAll uni r f b [] = (case matchAt r b [] of None \<Rightarrow> [] | Some (s', c) \<Rightarrow> f c)"
| "replaceAll uni r f b [h] =
     (case matchAt r b [h] of
        None \<Rightarrow> h # replaceAll uni r f False []
      | Some (s', c) \<Rightarrow>
          if length s' < 1 then f c @ replaceAll uni r f False s'
          else f c @ h # replaceAll uni r f False [])"
| "replaceAll uni r f b (h # l # t) =
     (let skip = (if uni \<and> 55296 \<le> h \<and> h \<le> 56319 \<and> 56320 \<le> l \<and> l \<le> 57343
                  then h # l # replaceAll uni r f False t
                  else h # replaceAll uni r f False (l # t))
      in case matchAt r b (h # l # t) of
           None \<Rightarrow> skip
         | Some (s', c) \<Rightarrow>
             if length s' < Suc (Suc (length t)) then f c @ replaceAll uni r f False s'
             else f c @ skip)"

text \<open>
  \<open>String.prototype.split\<close> with a pattern: the pieces between the matches. \<open>seg\<close> is the
  piece being read. (A match that consumes nothing is passed over; the one pattern the
  parser splits with, \<open>\s+\<close>, has none, and it has no capture group to splice in.)
\<close>

fun splitRe :: "regex \<Rightarrow> bool \<Rightarrow> jsstring \<Rightarrow> jsstring \<Rightarrow> jsstring list" where
  "splitRe r b seg [] = [seg]"
| "splitRe r b seg (u # s) =
     (case matchAt r b (u # s) of
        None \<Rightarrow> splitRe r False (seg @ [u]) s
      | Some (s', c) \<Rightarrow>
          if length s' < Suc (length s) then seg # splitRe r False [] s'
          else splitRe r False (seg @ [u]) s)"

section \<open>Noise filter (cleanNoise)\<close>

text \<open>\<open>/^\d+$/\<close>\<close>

definition onlyDigits :: regex where
  "onlyDigits = seqs [Bol, many1 digit, Eol]"

text \<open>\<open>/^BTE\s+\d+\s*\|\s*\d+$/i\<close>\<close>

definition pageFooter :: regex where
  "pageFooter =
     seqs [Bol, litI (units ''BTE''), many1 space, many1 digit, Star space, chr 124,
           Star space, many1 digit, Eol]"

text \<open>
  \<open>ignorePatterns\<close>, with the \<open>i\<close> flag; 199, 213, 195, 211, 243 and 227 are the letters
  with cedilla, tilde and acute accent of the captions.
\<close>

definition ignorePatterns :: regex where
  "ignorePatterns =
     seqs [Bol,
       Group 1 (alts [
         litI (units ''CONVEN'' @ [199, 213] @ units ''ES COLETIVAS''),
         litI (units ''PRIVADO''),
         litI (units ''REGULAMENTA'' @ [199, 195] @ units ''O DO TRABALHO''),
         litI (units ''ORGANIZA'' @ [199, 213] @ units ''ES DO TRABALHO''),
         litI (units ''CONSELHO ECON'' @ [211] @ units ''MICO E SOCIAL''),
         Seq (litI (units ''ARBITRAGEM'')) (Star anyChar),
         Seq (litI (units ''Ac'' @ [243] @ units ''rd'' @ [227] @ units ''o'')) (Star anyChar)]),
       Eol]"

text \<open>The callback of \<open>lines.filter\<close>.\<close>

definition keepLine :: "TextLine \<Rightarrow> bool" where
  "keepLine line =
     (let txt = trim (line_text line) in
      if test onlyDigits txt then False
      else if includesStr txt (units ''Boletim do Trabalho e Emprego'') then False
      else if includesStr txt (units ''|'') \<and> includesStr txt (units ''Vol.'')
              \<and> includesStr txt (units ''n.'' @ [186]) then False
      else if test pageFooter txt then False
      else if test ignorePatterns txt then False
      else True)"

definition cleanNoise :: "TextLine list \<Rightarrow> TextLine list" where
  "cleanNoise lines = filter keepLine lines"

section \<open>Metadata (convertDateToISO, extractGlobalMetadata)\<close>

datatype BteDocumentType = Issue | Offprint

text \<open>\<open>DownloadedFile\<close>, without the buffer, which only the decoder reads.\<close>

record DownloadedFile =
  url :: jsstring
  docType :: BteDocumentType
  year :: jsstring
  number :: jsstring

record metadata =
  date :: jsstring
  reference :: jsstring

text \<open>
  What the parser takes from the JavaScript engine: the current day as
  \<open>new Date().toISOString().split('T')[0]\<close> gives it, \<open>String.prototype.toLowerCase\<close> (the
  Unicode case tables are not reproduced here), and the text \<open>String(Object)\<close>, which
  differs between engines.
\<close>

record host =
  today :: jsstring
  toLowerCase :: "jsstring \<Rightarrow> jsstring"
  objectText :: jsstring

datatype error = TypeError

text \<open>
  \<open>map[p]\<close>, as the text it is written with in a template: \<open>None\<close> is \<open>undefined\<close>.
  \<open>map\<close> is an object literal, so besides its twelve keys it answers to the inherited
  property names; of those only \<open>constructor\<close> and \<open>__proto__\<close> are in lower case, as the
  parts of a lower-cased date are. Every value found is truthy.
\<close>

definition monthMap :: "host \<Rightarrow> jsstring \<Rightarrow> jsstring option" where
  "monthMap env p =
     map_of
       [(units ''janeiro'', units ''01''), (units ''fevereiro'', units ''02''),
        (units ''mar'' @ [231] @ units ''o'', units ''03''), (units ''abril'', units ''04''),
        (units ''maio'', units ''05''), (units ''junho'', units ''06''),
        (units ''julho'', units ''07''), (units ''agosto'', units ''08''),
        (units ''setembro'', units ''09''), (units ''outubro'', units ''10''),
        (units ''novembro'', units ''11''), (units ''dezembro'', units ''12''),
        (units ''constructor'', objectText env),
        (units ''__proto__'', units ''[object Object]'')] p"

text \<open>\<open>Array.prototype.findIndex\<close>, and the read \<open>parts[i]\<close> (\<open>None\<close> is \<open>undefined\<close>).\<close>

fun findIndex :: "('a \<Rightarrow> bool) \<Rightarrow> 'a list \<Rightarrow> int" where
  "findIndex P [] = -1"
| "findIndex P (a # as) =
     (if P a then 0 else (let i = findIndex P as in if i < 0 then -1 else i + 1))"

definition elemAt :: "'a list \<Rightarrow> int \<Rightarrow> 'a option" where
  "elemAt xs i = (if 0 \<le> i \<and> i < int (length xs) then Some (xs ! nat i) else None)"

text \<open>\<open>padStart(2, '0')\<close>\<close>

definition padStart2 :: "jsstring \<Rightarrow> jsstring" where
  "padStart2 s = replicate (2 - length s) 48 @ s"

definition convertDateToISO :: "host \<Rightarrow> jsstring \<Rightarrow> error + jsstring" where
  "convertDateToISO env ptDate =
     (let cleanDate =
            replaceAll False (seqs [many1 space, lit (units ''de''), many1 space])
              (\<lambda>c. [32]) True (toLowerCase env ptDate);
          parts = splitRe (many1 space) True [] cleanDate
      in if length parts < 3 then Inr (today env)
         else
           (let monthIndex = findIndex (\<lambda>p. monthMap env p \<noteq> None) parts;
                (day, monthName, year) =
                  (if monthIndex > 0 \<and> monthIndex + 1 < int (length parts)
                   then (elemAt parts (monthIndex - 1), elemAt parts monthIndex,
                         elemAt parts (monthIndex + 1))
                   else (elemAt parts 0, elemAt parts 1, elemAt parts 2));
                month = (case monthName of None \<Rightarrow> None | Some m \<Rightarrow> monthMap env m)
            in case day of
                 None \<Rightarrow> Inl TypeError
               | Some d \<Rightarrow>
                   (let day = padStart2 d in
                    case (month, year) of
                      (Some m, Some y) \<Rightarrow>
                        if day \<noteq> [] \<and> y \<noteq> [] \<and> length y = 4
                        then Inr (y @ units ''-'' @ m @ units ''-'' @ day)
                        else Inr (today env)
                    | _ \<Rightarrow> Inr (today env))))"

text \<open>
  \<open>headerLineRegex\<close>, \<open>/^(.*?)\s*\|\s*n\.o\s*(\d+)\s*\|\s*Vol\.\s*(\d+)/i\<close> (with the
  ordinal indicator, 186, after "n."), and \<open>dateRegex\<close>, built from \<open>monthsRegex\<close>.
\<close>

definition headerLineRegex :: regex where
  "headerLineRegex =
     seqs [Bol, Group 1 (LazyStar anyChar), Star space, chr 124, Star space,
           litI (units ''n.'' @ [186]), Star space, Group 2 (many1 digit), Star space,
           chr 124, Star space, litI (units ''Vol.''), Star space, Group 3 (many1 digit)]"

definition monthsRegex :: regex where
  "monthsRegex =
     Group 1 (alts [litI (units ''janeiro''), litI (units ''fevereiro''),
       litI (units ''mar'' @ [231] @ units ''o''), litI (units ''abril''),
       litI (units ''maio''), litI (units ''junho''), litI (units ''julho''),
       litI (units ''agosto''), litI (units ''setembro''), litI (units ''outubro''),
       litI (units ''novembro''), litI (units ''dezembro'')])"

definition dateRegex :: regex where
  "dateRegex =
     seqs [digit, optional digit, many1 space,
           optional (seqs [litI (units ''de''), many1 space]),
           monthsRegex, many1 space,
           optional (seqs [litI (units ''de''), many1 space]),
           digit, digit, digit, digit]"

text \<open>
  The scan of the first lines, with its three variables \<open>foundDateText\<close>, \<open>foundVolume\<close>
  and \<open>foundNumber\<close>. A header line ends the scan (\<open>break\<close>); \<open>headerMatch[1].trim()\<close>
  would throw on an undefined capture. A capture that is \<open>undefined\<close> is \<open>None\<close>.
\<close>

type_synonym found = "jsstring \<times> jsstring option \<times> jsstring option"

fun scanLines :: "TextLine list \<Rightarrow> found \<Rightarrow> error + found" where
  "scanLines [] fnd = Inr fnd"
| "scanLines (line # rest) (foundDateText, foundVolume, foundNumber) =
     (let txt = trim (line_text line) in
      case exec headerLineRegex True txt of
        Some headerMatch \<Rightarrow>
          (case capture headerMatch 1 of
             None \<Rightarrow> Inl TypeError
           | Some g \<Rightarrow> Inr (trim g, capture headerMatch 3, capture headerMatch 2))
      | None \<Rightarrow>
          if foundDateText = [] then
            (case exec dateRegex True txt of
               Some matchDate \<Rightarrow> scanLines rest (matched matchDate, foundVolume, foundNumber)
             | None \<Rightarrow> scanLines rest (foundDateText, foundVolume, foundNumber))
          else scanLines rest (foundDateText, foundVolume, foundNumber))"

text \<open>A value in a template string, and its truthiness.\<close>

definition template :: "jsstring option \<Rightarrow> jsstring" where
  "template v = (case v of None \<Rightarrow> units ''undefined'' | Some s \<Rightarrow> s)"

definition truthy :: "jsstring option \<Rightarrow> bool" where
  "truthy v = (case v of None \<Rightarrow> False | Some s \<Rightarrow> s \<noteq> [])"

definition extractGlobalMetadata ::
  "host \<Rightarrow> TextLine list \<Rightarrow> DownloadedFile \<Rightarrow> error + metadata" where
  "extractGlobalMetadata env lines file =
     (case scanLines (take 10 lines) ([], Some [], Some (number file)) of
        Inl e \<Rightarrow> Inl e
      | Inr (foundDateText, foundVolume, foundNumber) \<Rightarrow>
          (case (if foundDateText \<noteq> [] then convertDateToISO env foundDateText
                 else Inr (year file @ units ''-01-01'')) of
             Inl e \<Rightarrow> Inl e
           | Inr dateStr \<Rightarrow>
               (let datePart =
                      (if foundDateText \<noteq> [] then
                         (let prefix =
                                (if startsWith (toLowerCase env foundDateText) (units ''de '')
                                 then [] else units ''de '')
                          in units '', '' @ prefix @ foundDateText)
                       else units '', de '' @ year file);
                    volPart =
                      (if truthy foundVolume then units '', Vol. '' @ template foundVolume
                       else []);
                    fullReference =
                      units ''BTE n.'' @ [186, 32] @ template foundNumber @ volPart @ datePart
                in Inr \<lparr>date = dateStr, reference = fullReference\<rparr>)))"

text \<open>
  A lower-case function for the sample inputs, which are ASCII apart from the letters of
  Latin-1: it maps A to Z, and the capital letters of Latin-1, to their small letters.
\<close>

definition sampleLower :: "jsstring \<Rightarrow> jsstring" where
  "sampleLower s =
     map (\<lambda>u. if (65 \<le> u \<and> u \<le> 90) \<or> (192 \<le> u \<and> u \<le> 222 \<and> u \<noteq> 215) then u + 32 else u) s"

definition sampleHost :: host where
  "sampleHost =
     \<lparr>today = units ''2026-11-03'', toLowerCase = sampleLower,
      objectText = units ''function Object() { [native code] }''\<rparr>"

definition sampleFile :: DownloadedFile where
  "sampleFile = \<lparr>url = [], docType = Issue, year = units ''2024'', number = units ''7''\<rparr>"

definition sampleHeader :: "TextLine list" where
  "sampleHeader =
     [\<lparr>line_text = units ''15 de Janeiro de 2024 | N.'' @ [186] @ units '' 3 | Vol. 91'',
        line_y = 700, isBold = False, page = 1\<rparr>]"

text \<open>A header line that opens with the name of a place instead of a date.\<close>

definition placeHeader :: "TextLine list" where
  "placeHeader =
     [\<lparr>line_text = units ''Lisboa | n.'' @ [186] @ units '' 3 | Vol. 91'',
        line_y = 700, isBold = False, page = 1\<rparr>]"

section \<open>Tree construction (buildTree)\<close>

datatype nodeType = Root | Diploma | Chapter | Article

text \<open>
  \<open>BteNode\<close>. The stack of \<open>buildTree\<close> holds references to nodes that are also reachable
  from the root, and the builder writes through them; so the nodes live in a store, a list
  in which the address of a node is its index, and \<open>children\<close> lists the addresses of the
  children. The root is allocated first: its address is 0.
\<close>

record BteNode =
  node_type :: nodeType
  header :: "jsstring option"
  node_text :: "jsstring option"
  children :: "nat list option"

record builder =
  heap :: "BteNode list"
  stack :: "nat list"

definition kids :: "BteNode \<Rightarrow> nat list" where
  "kids n = (case children n of None \<Rightarrow> [] | Some cs \<Rightarrow> cs)"

text \<open>
  \<open>patterns.diploma\<close>, \<open>patterns.structure\<close> and \<open>patterns.article\<close>, all with the \<open>i\<close>
  flag. In \<open>structure\<close> the alternation is the outermost operator.
\<close>

definition preambulo :: jsstring where
  "preambulo = units ''Pre'' @ [226] @ units ''mbulo''"

definition diplomaPattern :: regex where
  "diplomaPattern =
     seqs [Bol,
       Group 1 (alts [litI (units ''Portaria''), litI (units ''Decreto-Lei''),
         litI (units ''Despacho''), litI (units ''Acordo''), litI (units ''Contrato''),
         litI (units ''Conven'' @ [231, 227] @ units ''o''),
         litI (units ''Decis'' @ [227] @ units ''o''),
         litI (units ''Parecer''), litI (units ''Aviso'')]),
       many1 space,
       optional (Group 2 (alts [litI (units ''n.'' @ [186]),
                                litI (units ''n'' @ [250] @ units ''mero'')]))]"

definition structurePattern :: regex where
  "structurePattern =
     Alt (seqs [Bol,
            Group 1 (alts [litI (units ''Cap'' @ [237] @ units ''tulo''),
              litI (units ''Sec'' @ [231, 227] @ units ''o''), litI (units ''Anexo'')]),
            many1 space,
            many1 (Cls (\<lambda>u. inClassI (units ''IVXLCDM'') u \<or> isDigit u))])
         (seqs [Bol, litI preambulo])"

definition articlePattern :: regex where
  "articlePattern =
     seqs [Bol, Group 1 (alts [litI (units ''Artigo''),
                               litI (units ''Cl'' @ [225] @ units ''usula'')]),
           many1 space, many1 digit]"

text \<open>\<open>matchedType\<close>: the first of the three patterns that matches, if any.\<close>

definition matchedType :: "jsstring \<Rightarrow> nodeType option" where
  "matchedType txt =
     (if test diplomaPattern txt then Some Diploma
      else if test structurePattern txt then Some Chapter
      else if test articlePattern txt then Some Article
      else None)"

text \<open>\<open>/^Pre\^ambulo$/i.test(headerText.trim())\<close>\<close>

definition isStrictPreambulo :: "jsstring \<Rightarrow> bool" where
  "isStrictPreambulo headerText = test (seqs [Bol, litI preambulo, Eol]) (trim headerText)"

text \<open>
  \<open>looksLikeTitle\<close>, for the trimmed next line; the last three tests are
  \<open>/^\d+[\.\-]/\<close>, \<open>/^(Pre\^ambulo)/i\<close> and \<open>/[.:;]$/\<close>.
\<close>

definition looksLikeTitle :: "jsstring \<Rightarrow> bool" where
  "looksLikeTitle nextLine =
     (length nextLine > 0 \<and>
      length nextLine < 250 \<and>
      \<not> test articlePattern nextLine \<and>
      \<not> test structurePattern nextLine \<and>
      \<not> test diplomaPattern nextLine \<and>
      \<not> test (seqs [Bol, many1 digit, Cls (\<lambda>u. u = 46 \<or> u = 45)]) nextLine \<and>
      \<not> test (seqs [Bol, Group 1 (litI preambulo)]) nextLine \<and>
      \<not> test (seqs [Cls (\<lambda>u. u = 46 \<or> u = 58 \<or> u = 59), Eol]) nextLine)"

text \<open>
  The inner \<open>while\<close> loop: the header extended over the lines that follow, and the number
  of lines it took (the increments of \<open>i\<close>).
\<close>

fun mergeHeader :: "jsstring \<Rightarrow> TextLine list \<Rightarrow> jsstring \<times> nat" where
  "mergeHeader headerText [] = (headerText, 0)"
| "mergeHeader headerText (next # rest) =
     (let nextLine = trim (line_text next) in
      if looksLikeTitle nextLine then
        (case mergeHeader (headerText @ [32] @ nextLine) rest of (h, n) \<Rightarrow> (h, Suc n))
      else (headerText, 0))"

definition newNode :: "nodeType \<Rightarrow> jsstring \<Rightarrow> BteNode" where
  "newNode t headerText =
     \<lparr>node_type = t, header = Some headerText,
      node_text = (if t = Article then Some [] else None), children = Some []\<rparr>"

text \<open>\<open>addChild\<close>: the node is allocated at the next address.\<close>

definition addChild :: "builder \<Rightarrow> BteNode \<Rightarrow> builder" where
  "addChild st node =
     (let parent = last (stack st);
          a = length (heap st);
          parentNode = heap st ! parent;
          cs = (case children parentNode of None \<Rightarrow> [] | Some cs \<Rightarrow> cs)
      in \<lparr>heap = (heap st)[parent := parentNode\<lparr>children := Some (cs @ [a])\<rparr>] @ [node],
          stack = stack st @ [a]\<rparr>)"

function popUntilType :: "BteNode list \<Rightarrow> nat list \<Rightarrow> nodeType list \<Rightarrow> nat list" where
  "popUntilType h stk types =
     (if length stk > 1 then
        (if node_type (h ! last stk) \<in> set types then stk
         else popUntilType h (butlast stk) types)
      else stk)"
  by pat_completeness auto
termination
  by (relation "measure (\<lambda>(h, stk, types). length stk)") auto

declare popUntilType.simps [simp del]

text \<open>The three ways a new node is hung into the tree.\<close>

definition placeNode :: "nodeType \<Rightarrow> BteNode \<Rightarrow> builder \<Rightarrow> builder" where
  "placeNode t node st =
     (if t = Diploma then addChild (st\<lparr>stack := [0]\<rparr>) node
      else if t = Chapter then
        addChild (st\<lparr>stack := popUntilType (heap st) (stack st) [Diploma, Root]\<rparr>) node
      else if t = Article then
        addChild (st\<lparr>stack := popUntilType (heap st) (stack st) [Chapter, Diploma, Root]\<rparr>) node
      else st)"

text \<open>A line that is no header: appended to the text of the node on top of the stack.\<close>

definition appendText :: "builder \<Rightarrow> jsstring \<Rightarrow> builder" where
  "appendText st txt =
     (let a = last (stack st); currentNode = heap st ! a in
      if node_type currentNode \<noteq> Root then
        (let t0 = (case node_text currentNode of None \<Rightarrow> [] | Some t \<Rightarrow> t);
             t1 = t0 @ (if t0 \<noteq> [] then [10] else []) @ txt
         in st\<lparr>heap := (heap st)[a := currentNode\<lparr>node_text := Some t1\<rparr>]\<rparr>)
      else st)"

text \<open>The outer loop, from the line it stands at.\<close>

function buildFrom :: "builder \<Rightarrow> TextLine list \<Rightarrow> builder" where
  "buildFrom st [] = st"
| "buildFrom st (line # rest) =
     (let txt = trim (line_text line) in
      case matchedType txt of
        Some t \<Rightarrow>
          (let (headerText, n) =
                 (if \<not> isStrictPreambulo txt then mergeHeader txt rest else (txt, 0))
           in buildFrom (placeNode t (newNode t headerText) st) (drop n rest))
      | None \<Rightarrow> buildFrom (appendText st txt) rest)"
  by pat_completeness auto
termination
  by (relation "measure (\<lambda>(st, ls). length ls)") auto

text \<open>The state before the first line: \<open>root\<close> and \<open>stack = [root]\<close>.\<close>

definition initialBuilder :: builder where
  "initialBuilder =
     \<lparr>heap = [\<lparr>node_type = Root, header = None, node_text = None, children = Some []\<rparr>],
      stack = [0]\<rparr>"

text \<open>\<open>buildTree\<close> returns the root; here, the store, with the root at address 0.\<close>

definition buildTree :: "TextLine list \<Rightarrow> BteNode list" where
  "buildTree lines = heap (buildFrom initialBuilder lines)"

text \<open>A path of the tree: each node a child of the one before.\<close>

fun isPath :: "BteNode list \<Rightarrow> nat list \<Rightarrow> bool" where
  "isPath h [] = True"
| "isPath h [a] = (a < length h)"
| "isPath h (a # b # rest) = (a < length h \<and> b \<in> set (kids (h ! a)) \<and> isPath h (b # rest))"

text \<open>The level of a kind of node.\<close>

fun level :: "nodeType \<Rightarrow> nat" where
  "level Root = 0"
| "level Diploma = 1"
| "level Chapter = 2"
| "level Article = 3"

text \<open>Which kind of node may be the parent of which.\<close>

fun parentOk :: "nodeType \<Rightarrow> nodeType \<Rightarrow> bool" where
  "parentOk p Root = False"
| "parentOk p Diploma = (p = Root)"
| "parentOk p Chapter = (p = Diploma \<or> p = Root)"
| "parentOk p Article = (p = Chapter \<or> p = Diploma \<or> p = Root)"

text \<open>
  The invariant of the builder. Every child is a node of the store allocated after its
  parent, and of a kind that may hang under it; every node but the root is not of kind
  root and is the child of an earlier node; the root has no text and every article has one.
  The stack is never empty, its bottom is the root, and it holds addresses of the store.
\<close>

definition edgesOk :: "BteNode list \<Rightarrow> bool" where
  "edgesOk h =
     (\<forall>p < length h. \<forall>c \<in> set (kids (h ! p)).
        c < length h \<and> p < c \<and> parentOk (node_type (h ! p)) (node_type (h ! c)))"

definition rooted :: "BteNode list \<Rightarrow> bool" where
  "rooted h =
     (h \<noteq> [] \<and> node_type (h ! 0) = Root \<and>
      (\<forall>c. 0 < c \<and> c < length h \<longrightarrow>
         node_type (h ! c) \<noteq> Root \<and> (\<exists>p < c. c \<in> set (kids (h ! p)))))"

definition textsOk :: "BteNode list \<Rightarrow> bool" where
  "textsOk h =
     (node_text (h ! 0) = None \<and>
      (\<forall>a < length h. node_type (h ! a) = Article \<longrightarrow> node_text (h ! a) \<noteq> None))"

definition stackOk :: "builder \<Rightarrow> bool" where
  "stackOk st =
     (stack st \<noteq> [] \<and> hd (stack st) = 0 \<and> (\<forall>a \<in> set (stack st). a < length (heap st)))"

definition wfBuilder :: "builder \<Rightarrow> bool" where
  "wfBuilder st = (edgesOk (heap st) \<and> rooted (heap st) \<and> textsOk (heap st) \<and> stackOk st)"

text \<open>
  A sample document: a diploma whose title runs over two lines, a chapter, an article and
  one line of body text.
\<close>

definition sampleLines :: "TextLine list" where
  "sampleLines =
     [\<lparr>line_text = units ''Portaria n.'' @ [186] @ units '' 123/2024'',
        line_y = 700, isBold = False, page = 1\<rparr>,
      \<lparr>line_text = units ''de regulamenta'' @ [231, 227] @ units ''o do trabalho'',
        line_y = 680, isBold = False, page = 1\<rparr>,
      \<lparr>line_text = units ''Cap'' @ [237] @ units ''tulo I'',
        line_y = 660, isBold = False, page = 1\<rparr>,
      \<lparr>line_text = units ''Artigo 1.'' @ [186],
        line_y = 640, isBold = False, page = 1\<rparr>,
      \<lparr>line_text = units ''Disposi'' @ [231, 227] @ units ''o geral.'',
        line_y = 620, isBold = False, page = 1\<rparr>]"

definition sampleTree :: "BteNode list" where
  "sampleTree =
     [\<lparr>node_type = Root, header = None, node_text = None, children = Some [1]\<rparr>,
      \<lparr>node_type = Diploma,
        header = Some (units ''Portaria n.'' @ [186] @ units '' 123/2024 de regulamenta''
                       @ [231, 227] @ units ''o do trabalho''),
        node_text = None, children = Some [2]\<rparr>,
      \<lparr>node_type = Chapter, header = Some (units ''Cap'' @ [237] @ units ''tulo I''),
        node_text = None, children = Some [3]\<rparr>,
      \<lparr>node_type = Article, header = Some (units ''Artigo 1.'' @ [186]),
        node_text = Some (units ''Disposi'' @ [231, 227] @ units ''o geral.''),
        children = Some []\<rparr>]"

section \<open>Text normalization (cleanTreeText)\<close>

text \<open>
  The five steps \<open>cleanTreeText\<close> applies to the text of a node. The first two patterns
  have the \<open>u\<close> flag and read code points; \<open>\p{L}\<close>, the letters of Unicode, is a table
  outside the repository and is the parameter \<open>L\<close>. \<open>latin1Letter\<close> is that table for the
  code points below 256, for the sample inputs.
\<close>

definition latin1Letter :: "nat \<Rightarrow> bool" where
  "latin1Letter c =
     ((65 \<le> c \<and> c \<le> 90) \<or> (97 \<le> c \<and> c \<le> 122) \<or> c = 170 \<or> c = 181 \<or> c = 186
      \<or> (192 \<le> c \<and> c \<le> 214) \<or> (216 \<le> c \<and> c \<le> 246) \<or> (248 \<le> c \<and> c \<le> 255))"

text \<open>\<open>/(\p{L})\s+-\s+(\p{L})/gu\<close>\<close>

definition letterGapRe :: "(nat \<Rightarrow> bool) \<Rightarrow> regex" where
  "letterGapRe L =
     seqs [Group 1 (CpCls L), many1 (CpCls isSpace), CpCls (\<lambda>u. u = 45),
           many1 (CpCls isSpace), Group 2 (CpCls L)]"

text \<open>\<open>/(\p{L})-\s*[\r\n]+\s*(\p{L})/gu\<close>\<close>

definition wrapRe :: "(nat \<Rightarrow> bool) \<Rightarrow> regex" where
  "wrapRe L =
     seqs [Group 1 (CpCls L), CpCls (\<lambda>u. u = 45), Star (CpCls isSpace),
           many1 (CpCls (\<lambda>u. u = 13 \<or> u = 10)), Star (CpCls isSpace), Group 2 (CpCls L)]"

text \<open>
  The third pattern, with the flags \<open>g\<close> and \<open>i\<close>: a newline not followed by
  \<open>\s*(?:\d+|[a-z])\s*\<close> and one character of a class. \<open>enumMarker\<close> is the body of that
  negative lookahead; the class holds the hyphen (45), the en dash (8211), the dot (46)
  and the closing parenthesis (41).
\<close>

definition enumMarker :: regex where
  "enumMarker =
     seqs [Star space, Alt (many1 digit) (Cls (inRangeI 97 122)), Star space,
           Cls (inClassI [45, 8211, 46, 41])]"

definition newlineRe :: regex where
  "newlineRe = Seq (chrI 10) (NotAhead enumMarker)"

text \<open>\<open>/\s{2,}/g\<close>\<close>

definition spacesRe :: regex where
  "spacesRe = Seq space (Seq space (Star space))"

text \<open>The replacement \<open>'$1$2'\<close> (a group that did not take part gives the empty string).\<close>

definition dollar12 :: "captures \<Rightarrow> jsstring" where
  "dollar12 c =
     (case c 1 of None \<Rightarrow> [] | Some a \<Rightarrow> a) @ (case c 2 of None \<Rightarrow> [] | Some a \<Rightarrow> a)"

definition joinSpaced :: "(nat \<Rightarrow> bool) \<Rightarrow> jsstring \<Rightarrow> jsstring" where
  "joinSpaced L s = replaceAll True (letterGapRe L) dollar12 True s"

definition joinWrapped :: "(nat \<Rightarrow> bool) \<Rightarrow> jsstring \<Rightarrow> jsstring" where
  "joinWrapped L s = replaceAll True (wrapRe L) dollar12 True s"

definition unwrapLines :: "jsstring \<Rightarrow> jsstring" where
  "unwrapLines s = replaceAll False newlineRe (\<lambda>c. [32]) True s"

definition collapseSpaces :: "jsstring \<Rightarrow> jsstring" where
  "collapseSpaces s = replaceAll False spacesRe (\<lambda>c. [32]) True s"

text \<open>
  What \<open>cleanTreeText\<close> does to \<open>node.text\<close>: nothing when the text is empty (\<open>if
  (node.text)\<close>), else the five steps.
\<close>

definition cleanNodeText :: "(nat \<Rightarrow> bool) \<Rightarrow> jsstring \<Rightarrow> jsstring" where
  "cleanNodeText L s =
     (if s \<noteq> [] then
        trim (collapseSpaces (unwrapLines (joinWrapped L (joinSpaced L s))))
      else s)"

definition cleanNode :: "(nat \<Rightarrow> bool) \<Rightarrow> BteNode \<Rightarrow> BteNode" where
  "cleanNode L n =
     (case node_text n of
        None \<Rightarrow> n
      | Some t \<Rightarrow> n\<lparr>node_text := Some (cleanNodeText L t)\<rparr>)"

subsection \<open>The last three steps as list functions\<close>

text \<open>
  For the proofs, the lookahead and the third and fourth step are given once more as
  plain recursions on the string; they are shown below to agree with the patterns.
  \<open>afterToken\<close>: spaces, then a delimiter. \<open>inNumber\<close>: further digits, then that.
  \<open>marker\<close>: spaces, then digits or one letter, then that.
\<close>

fun afterToken :: "jsstring \<Rightarrow> bool" where
  "afterToken [] = False"
| "afterToken (u # r) = (if isSpace u then afterToken r else inClassI [45, 8211, 46, 41] u)"

fun inNumber :: "jsstring \<Rightarrow> bool" where
  "inNumber [] = False"
| "inNumber (u # r) = (if isDigit u then inNumber r else afterToken (u # r))"

fun marker :: "jsstring \<Rightarrow> bool" where
  "marker [] = False"
| "marker (u # r) =
     (if isSpace u then marker r
      else if isDigit u then inNumber r
      else if inRangeI 97 122 u then afterToken r
      else False)"

fun unwrapF :: "jsstring \<Rightarrow> jsstring" where
  "unwrapF [] = []"
| "unwrapF (u # r) = (if u = 10 \<and> \<not> marker r then 32 else u) # unwrapF r"

function squeezeF :: "jsstring \<Rightarrow> jsstring" where
  "squeezeF [] = []"
| "squeezeF [h] = [h]"
| "squeezeF (h # l # t) =
     (if isSpace h \<and> isSpace l then 32 # squeezeF (dropWhile isSpace t)
      else h # squeezeF (l # t))"
  by pat_completeness auto
termination
  by (relation "measure length") (auto simp: length_dropWhile_le less_Suc_eq_le le_SucI)

fun noDouble :: "jsstring \<Rightarrow> bool" where
  "noDouble [] = True"
| "noDouble [h] = True"
| "noDouble (h # l # t) = (\<not> (isSpace h \<and> isSpace l) \<and> noDouble (l # t))"

section \<open>Rounding to a double\<close>



lemma double_0: "double 0 = 0"
  by (simp add: double_def)

lemma double_minus: "double (- v) = - double v"
  by (simp add: double_def Let_def sgn_minus)








text \<open>
  The rounding is not the identity: the difference of 3 and the double just below 1 is
  computed as 2, although it is more than 2.
\<close>

lemma floorlog_between:
  "2 ^ w \<le> n \<Longrightarrow> n < 2 ^ Suc w \<Longrightarrow> floorlog 2 n = Suc w"
  by (intro antisym floorlog_leI floorlog_ge_SucI) simp_all

lemma double_rounds: "double (3 - (1 - 1 / 2 ^ 53)) = 2"
proof -
  define v :: real where "v = 3 - (1 - 1 / 2 ^ 53)"
  have m: "\<bar>v\<bar> * 2 ^ 1074 = of_nat (2 ^ 1075 + 2 ^ 1021)"
    by (simp add: v_def)
  have n: "nat \<lfloor>\<bar>v\<bar> * 2 ^ 1074\<rfloor> = 2 ^ 1075 + 2 ^ 1021"
    unfolding m by (simp only: floor_of_nat nat_int)
  have f: "floorlog 2 (2 ^ 1075 + 2 ^ 1021) = Suc 1075"
    by (rule floorlog_between) simp_all
  have q: "\<bar>v\<bar> * 2 ^ 1074 / 2 ^ (Suc 1075 - 53) = 2 ^ 52 + 1 / 4"
    by (simp add: v_def)
  have r: "roundEven (2 ^ 52 + 1 / 4) = 2 ^ 52"
    by (simp add: roundEven_def)
  have "double v = sgn v * (of_int (roundEven (2 ^ 52 + 1 / 4)) * 2 ^ (Suc 1075 - 53) / 2 ^ 1074)"
    unfolding double_def Let_def n f q ..
  also have "\<dots> = 2" unfolding r by (simp add: v_def)
  finally show ?thesis unfolding v_def .
qed

section \<open>Line reconstruction does not read the end-of-line flag\<close>



















section \<open>Line reconstruction and the order of the runs\<close>




















text \<open>
  The tolerance is tested on the computed difference: heights 3 and the double just below
  1 are more than 2 apart, but their difference is computed as 2, so two runs at these
  heights with the same X are a tie for the comparator, and such a page is not
  \<open>separated\<close>.
\<close>

lemma near_rows_tie:
  "compareItems
     \<lparr>item_text = units ''A'', item_y = 3, item_x = 10, hasEol = False\<rparr>
     \<lparr>item_text = units ''B'', item_y = 1 - 1 / 2 ^ 53, item_x = 10, hasEol = False\<rparr> = 0
   \<and> \<not> separated
     [\<lparr>str = units ''A'', transform4 = 10, transform5 = 3, hasEOL = False\<rparr>,
      \<lparr>str = units ''B'', transform4 = 10, transform5 = 1 - 1 / 2 ^ 53, hasEOL = False\<rparr>]"
  using double_rounds double_minus [of "3 - (1 - 1 / 2 ^ 53)"]
  by (simp add: compareItems_def separated_def double_0 units_def)



section \<open>Evaluating the matcher\<close>

lemma ms_Star:
  "ms (Star p) (b, s, c) = concat (map (starNext p (length s)) (ms p (b, s, c))) @ [(b, s, c)]"
  unfolding starNext_def by (subst ms.simps) (rule refl)

lemma ms_LazyStar:
  "ms (LazyStar p) (b, s, c) =
     (b, s, c) # concat (map (lazyNext p (length s)) (ms p (b, s, c)))"
  unfolding lazyNext_def by (subst ms.simps) (rule refl)

lemma starNext_apply:
  "starNext p n (b', s', c') = (if length s' < n then ms (Star p) (b', s', c') else [])"
  by (simp add: starNext_def)

lemma lazyNext_apply:
  "lazyNext p n (b', s', c') = (if length s' < n then ms (LazyStar p) (b', s', c') else [])"
  by (simp add: lazyNext_def)

lemmas regex_rules =
  ms_Star ms_LazyStar starNext_apply lazyNext_apply units_def trim_def isSpace_def test_def
  matchAt_def many1_def optional_def digit_def space_def anyChar_def chr_def chrI_def
  isDigit_def isLineTerminator_def canonicalize_def inClassI_def inRangeI_def matched_def
  capture_def

section \<open>The noise filter is a pure, order-preserving filter\<close>

lemma keepLine_iff:
  "keepLine l =
     (\<not> (test onlyDigits (trim (line_text l))
         \<or> includesStr (trim (line_text l)) (units ''Boletim do Trabalho e Emprego'')
         \<or> (includesStr (trim (line_text l)) (units ''|'')
             \<and> includesStr (trim (line_text l)) (units ''Vol.'')
             \<and> includesStr (trim (line_text l)) (units ''n.'' @ [186]))
         \<or> test pageFooter (trim (line_text l))
         \<or> test ignorePatterns (trim (line_text l))))"
  by (simp add: keepLine_def Let_def)

text \<open>
  C8. For every sequence of lines, the output of the noise filter is a subsequence of its
  input (the retained lines keep their order), a line is removed exactly when its trimmed
  text is all digits, or contains the publication name, or contains the separator, the
  volume marker and the number marker, or is a "BTE n | n" footer, or is one of the section
  captions, and filtering twice is filtering once.
\<close>

theorem cleanNoise_pure:
  "subseq (cleanNoise ls) ls
   \<and> cleanNoise ls =
       filter (\<lambda>l. \<not> (test onlyDigits (trim (line_text l))
         \<or> includesStr (trim (line_text l)) (units ''Boletim do Trabalho e Emprego'')
         \<or> (includesStr (trim (line_text l)) (units ''|'')
             \<and> includesStr (trim (line_text l)) (units ''Vol.'')
             \<and> includesStr (trim (line_text l)) (units ''n.'' @ [186]))
         \<or> test pageFooter (trim (line_text l))
         \<or> test ignorePatterns (trim (line_text l)))) ls
   \<and> cleanNoise (cleanNoise ls) = cleanNoise ls"
proof (intro conjI)
  show "subseq (cleanNoise ls) ls"
    by (simp add: cleanNoise_def)
  show "cleanNoise (cleanNoise ls) = cleanNoise ls"
    by (simp add: cleanNoise_def)
  show "cleanNoise ls =
       filter (\<lambda>l. \<not> (test onlyDigits (trim (line_text l))
         \<or> includesStr (trim (line_text l)) (units ''Boletim do Trabalho e Emprego'')
         \<or> (includesStr (trim (line_text l)) (units ''|'')
             \<and> includesStr (trim (line_text l)) (units ''Vol.'')
             \<and> includesStr (trim (line_text l)) (units ''n.'' @ [186]))
         \<or> test pageFooter (trim (line_text l))
         \<or> test ignorePatterns (trim (line_text l)))) ls"
    unfolding cleanNoise_def by (rule filter_cong [OF refl]) (rule keepLine_iff)
qed

theorem cleanNoise_pure_witness:
  "subseq
     (cleanNoise
        [\<lparr>line_text = units ''42'', line_y = 700, isBold = False, page = 1\<rparr>,
         \<lparr>line_text = units ''Artigo 1.'', line_y = 680, isBold = False, page = 1\<rparr>,
         \<lparr>line_text = units ''bte 12 | 345'', line_y = 20, isBold = False, page = 1\<rparr>])
     [\<lparr>line_text = units ''42'', line_y = 700, isBold = False, page = 1\<rparr>,
      \<lparr>line_text = units ''Artigo 1.'', line_y = 680, isBold = False, page = 1\<rparr>,
      \<lparr>line_text = units ''bte 12 | 345'', line_y = 20, isBold = False, page = 1\<rparr>]
   \<and> cleanNoise
        [\<lparr>line_text = units ''42'', line_y = 700, isBold = False, page = 1\<rparr>,
         \<lparr>line_text = units ''Artigo 1.'', line_y = 680, isBold = False, page = 1\<rparr>,
         \<lparr>line_text = units ''bte 12 | 345'', line_y = 20, isBold = False, page = 1\<rparr>]
       = [\<lparr>line_text = units ''Artigo 1.'', line_y = 680, isBold = False, page = 1\<rparr>]
   \<and> cleanNoise [\<lparr>line_text = units ''Artigo 1.'', line_y = 680, isBold = False, page = 1\<rparr>]
       = [\<lparr>line_text = units ''Artigo 1.'', line_y = 680, isBold = False, page = 1\<rparr>]"
proof -
  have e: "cleanNoise
        [\<lparr>line_text = units ''42'', line_y = 700, isBold = False, page = 1\<rparr>,
         \<lparr>line_text = units ''Artigo 1.'', line_y = 680, isBold = False, page = 1\<rparr>,
         \<lparr>line_text = units ''bte 12 | 345'', line_y = 20, isBold = False, page = 1\<rparr>]
       = [\<lparr>line_text = units ''Artigo 1.'', line_y = 680, isBold = False, page = 1\<rparr>]"
    by (simp add: cleanNoise_def keepLine_def onlyDigits_def pageFooter_def ignorePatterns_def
        regex_rules)
  from cleanNoise_pure [of
        "[\<lparr>line_text = units ''42'', line_y = 700, isBold = False, page = 1\<rparr>,
         \<lparr>line_text = units ''Artigo 1.'', line_y = 680, isBold = False, page = 1\<rparr>,
         \<lparr>line_text = units ''bte 12 | 345'', line_y = 20, isBold = False, page = 1\<rparr>]"]
  show ?thesis unfolding e by blast
qed

section \<open>Metadata extraction returns, and what it returns without a date\<close>

lemmas meta_rules = extractGlobalMetadata_def convertDateToISO_def monthMap_def elemAt_def padStart2_def
  headerLineRegex_def monthsRegex_def dateRegex_def template_def truthy_def sampleLower_def sampleHost_def Let_def

lemma metadata_sample:
  "extractGlobalMetadata sampleHost sampleHeader sampleFile =
     Inr \<lparr>date = units ''2024-01-15'',
          reference = units ''BTE n.'' @ [186] @ units '' 3, Vol. 91, de 15 de Janeiro de 2024''\<rparr>"
  by (simp add: sampleHeader_def sampleFile_def meta_rules regex_rules)

lemma ms_caps_mono:
  "st' \<in> set (ms r st) \<Longrightarrow> dom (snd (snd st)) \<subseteq> dom (snd (snd st'))"
proof (induction r st arbitrary: st' rule: ms.induct)
  case (1 P b s c)
  then show ?case by (auto split: list.splits if_splits)
next
  case (2 P b s c)
  then show ?case by (auto split: option.splits if_splits)
next
  case (3 b s c)
  then show ?case by (auto split: if_splits)
next
  case (4 b s c)
  then show ?case by (auto split: if_splits)
next
  case (5 st)
  then show ?case by simp
next
  case (6 p q st)
  from "6.prems" obtain mid where mid: "mid \<in> set (ms p st)" and st': "st' \<in> set (ms q mid)"
    by auto
  from "6.IH"(1) [OF mid] "6.IH"(2) [OF mid st'] show ?case by blast
next
  case (7 p q st)
  from "7.prems" have "st' \<in> set (ms p st) \<or> st' \<in> set (ms q st)" by simp
  then show ?case using "7.IH" by blast
next
  case (8 p b s c)
  from "8.prems" have "st' = (b, s, c) \<or>
      (\<exists>b1 s1 c1. (b1, s1, c1) \<in> set (ms p (b, s, c)) \<and> length s1 < length s
          \<and> st' \<in> set (ms (Star p) (b1, s1, c1)))"
    by (subst (asm) ms.simps(8)) (auto split: if_splits)
  then show ?case
  proof
    assume "st' = (b, s, c)"
    then show ?thesis by simp
  next
    assume "\<exists>b1 s1 c1. (b1, s1, c1) \<in> set (ms p (b, s, c)) \<and> length s1 < length s
          \<and> st' \<in> set (ms (Star p) (b1, s1, c1))"
    then obtain b1 s1 c1 where m: "(b1, s1, c1) \<in> set (ms p (b, s, c))"
      and l: "length s1 < length s" and s: "st' \<in> set (ms (Star p) (b1, s1, c1))" by blast
    from "8.IH"(1) [OF m] "8.IH"(2) [OF m refl refl l s] show ?thesis by auto
  qed
next
  case (9 p b s c)
  from "9.prems" have "st' = (b, s, c) \<or>
      (\<exists>b1 s1 c1. (b1, s1, c1) \<in> set (ms p (b, s, c)) \<and> length s1 < length s
          \<and> st' \<in> set (ms (LazyStar p) (b1, s1, c1)))"
    by (subst (asm) ms.simps(9)) (auto split: if_splits)
  then show ?case
  proof
    assume "st' = (b, s, c)"
    then show ?thesis by simp
  next
    assume "\<exists>b1 s1 c1. (b1, s1, c1) \<in> set (ms p (b, s, c)) \<and> length s1 < length s
          \<and> st' \<in> set (ms (LazyStar p) (b1, s1, c1))"
    then obtain b1 s1 c1 where m: "(b1, s1, c1) \<in> set (ms p (b, s, c))"
      and l: "length s1 < length s" and s: "st' \<in> set (ms (LazyStar p) (b1, s1, c1))" by blast
    from "9.IH"(1) [OF m] "9.IH"(2) [OF m refl refl l s] show ?thesis by auto
  qed
next
  case (10 n p b s c)
  from "10.prems" obtain b1 s1 c1 where m: "(b1, s1, c1) \<in> set (ms p (b, s, c))"
    and e: "st' = (b1, s1, c1(n \<mapsto> take (length s - length s1) s))" by auto
  from "10.IH" [OF m] e show ?case by auto
next
  case (11 p st)
  then show ?case by (auto split: if_splits)
qed

lemma ms_Group_sets:
  "st' \<in> set (ms (Group n p) st) \<Longrightarrow> n \<in> dom (snd (snd st'))"
  by (cases st) auto

lemma exec_matchAt:
  "exec r b s = Some (s0, s', c) \<Longrightarrow> \<exists>b0. matchAt r b0 s0 = Some (s', c)"
  by (induction r b s rule: exec.induct) (auto split: option.splits)

lemma matchAt_ms:
  "matchAt r b s = Some (s', c) \<Longrightarrow> \<exists>b'. (b', s', c) \<in> set (ms r (b, s, Map.empty))"
  by (auto simp: matchAt_def split: list.splits)

lemma ms_Seq_elem:
  "st' \<in> set (ms (Seq p q) st) \<Longrightarrow> \<exists>mid \<in> set (ms p st). st' \<in> set (ms q mid)"
  by auto

lemma header_capture:
  assumes "exec headerLineRegex b s = Some m"
  shows "capture m 1 \<noteq> None"
proof -
  obtain s0 s' c where m: "m = (s0, s', c)" by (cases m) auto
  from assms exec_matchAt [of headerLineRegex b s s0 s' c] m
  obtain b0 where "matchAt headerLineRegex b0 s0 = Some (s', c)" by blast
  from matchAt_ms [OF this] obtain b' where
    "(b', s', c) \<in> set (ms headerLineRegex (b0, s0, Map.empty))" by blast
  then have "(b', s', c) \<in> set (ms (Seq Bol (Seq (Group 1 (LazyStar anyChar))
         (seqs [Star space, chr 124, Star space,
           litI (units ''n.'' @ [186]), Star space, Group 2 (many1 digit), Star space,
           chr 124, Star space, litI (units ''Vol.''), Star space, Group 3 (many1 digit)])))
         (b0, s0, Map.empty))"
    by (simp only: headerLineRegex_def seqs.simps)
  from ms_Seq_elem [OF this] obtain m1 where
    "(b', s', c) \<in> set (ms (Seq (Group 1 (LazyStar anyChar))
         (seqs [Star space, chr 124, Star space,
           litI (units ''n.'' @ [186]), Star space, Group 2 (many1 digit), Star space,
           chr 124, Star space, litI (units ''Vol.''), Star space, Group 3 (many1 digit)])) m1)"
    by blast
  from ms_Seq_elem [OF this] obtain m2 where "m2 \<in> set (ms (Group 1 (LazyStar anyChar)) m1)"
    and r: "(b', s', c) \<in> set (ms (seqs [Star space, chr 124, Star space,
           litI (units ''n.'' @ [186]), Star space, Group 2 (many1 digit), Star space,
           chr 124, Star space, litI (units ''Vol.''), Star space, Group 3 (many1 digit)]) m2)"
    by blast
  from ms_Group_sets [OF this(1)] ms_caps_mono [OF r] have "1 \<in> dom c" by auto
  with m show ?thesis by (auto simp: capture_def)
qed

lemma scanLines_total: "\<exists>f. scanLines ls fnd = Inr f"
proof (induction ls arbitrary: fnd)
  case Nil
  show ?case by simp (metis prod_cases3)
next
  case (Cons l ls)
  obtain d v n where fnd: "fnd = (d, v, n)" using prod_cases3 by blast
  show ?case
  proof (cases "exec headerLineRegex True (trim (line_text l))")
    case (Some m)
    from header_capture [OF Some] obtain g where "capture m 1 = Some g" by blast
    with Some fnd show ?thesis by simp
  next
    case None
    with fnd Cons.IH show ?thesis by (auto split: option.splits)
  qed
qed

lemma convertDateToISO_total: "\<exists>d. convertDateToISO env s = Inr d"
  unfolding convertDateToISO_def Let_def
  by (auto simp: elemAt_def split: option.splits prod.splits)

lemma scanLines_nothing:
  "\<forall>l \<in> set ls. exec headerLineRegex True (trim (line_text l)) = None
       \<and> exec dateRegex True (trim (line_text l)) = None \<Longrightarrow>
   scanLines ls ([], v, n) = Inr ([], v, n)"
  by (induction ls) simp_all

lemma extractGlobalMetadata_cases:
  assumes "scanLines (take 10 lines) ([], Some [], Some (number file)) = Inr (d, v, n)"
  shows "\<exists>dateStr rest.
           (if d \<noteq> [] then convertDateToISO env d else Inr (year file @ units ''-01-01''))
             = Inr dateStr
         \<and> extractGlobalMetadata env lines file =
             Inr \<lparr>date = dateStr,
                  reference = units ''BTE n.'' @ [186, 32] @ rest\<rparr>"
proof -
  from convertDateToISO_total [of env d]
  obtain dateStr where
    "(if d \<noteq> [] then convertDateToISO env d else Inr (year file @ units ''-01-01''))
       = Inr dateStr" by (cases "d = []") auto
  with assms show ?thesis
    by (simp add: extractGlobalMetadata_def Let_def)
qed

text \<open>
  C9. For every sequence of lines and every file, of either document type, metadata
  extraction returns a reference that begins with "BTE n.o " (eight code units, the
  seventh being the ordinal indicator): the label is the constant "BTE", and the document
  type of the file is not read.
\<close>

theorem reference_prefix:
  "(\<exists>m. extractGlobalMetadata env lines file = Inr m
        \<and> prefix (units ''BTE n.'' @ [186, 32]) (reference m)
        \<and> 8 \<le> length (reference m))
   \<and> extractGlobalMetadata env lines (file\<lparr>docType := t\<rparr>)
       = extractGlobalMetadata env lines file"
proof
  from scanLines_total obtain f where
    "scanLines (take 10 lines) ([], Some [], Some (number file)) = Inr f" by blast
  moreover obtain d v n where "f = (d, v, n)" using prod_cases3 by blast
  ultimately have "scanLines (take 10 lines) ([], Some [], Some (number file)) = Inr (d, v, n)"
    by simp
  from extractGlobalMetadata_cases [OF this, of env] obtain dateStr rest where
    "extractGlobalMetadata env lines file =
       Inr \<lparr>date = dateStr, reference = units ''BTE n.'' @ [186, 32] @ rest\<rparr>" by blast
  then show "\<exists>m. extractGlobalMetadata env lines file = Inr m
        \<and> prefix (units ''BTE n.'' @ [186, 32]) (reference m)
        \<and> 8 \<le> length (reference m)"
    by (simp add: units_def)
  have y: "year (file\<lparr>docType := t\<rparr>) = year file"
    and n: "number (file\<lparr>docType := t\<rparr>) = number file" by simp_all
  show "extractGlobalMetadata env lines (file\<lparr>docType := t\<rparr>)
       = extractGlobalMetadata env lines file"
    unfolding extractGlobalMetadata_def y n by (rule refl)
qed

theorem reference_prefix_witness:
  "prefix (units ''BTE n.'' @ [186, 32])
     (units ''BTE n.'' @ [186] @ units '' 3, Vol. 91, de 15 de Janeiro de 2024'')
   \<and> 8 \<le> length (units ''BTE n.'' @ [186] @ units '' 3, Vol. 91, de 15 de Janeiro de 2024'')
   \<and> extractGlobalMetadata sampleHost sampleHeader (sampleFile\<lparr>docType := Offprint\<rparr>)
       = Inr \<lparr>date = units ''2024-01-15'',
              reference =
                units ''BTE n.'' @ [186] @ units '' 3, Vol. 91, de 15 de Janeiro de 2024''\<rparr>"
  using reference_prefix [of sampleHost sampleHeader sampleFile Offprint]
  by (simp add: metadata_sample)

text \<open>
  C4, as the claim states it, fails: where the window holds no date but a header line
  opens with some other text, the date returned is not the default of the declared year
  but the current day. The single line "Lisboa | n.o 3 | Vol. 91" holds no date
  expression; it matches the header pattern, "Lisboa" becomes the date text, and
  \<open>convertDateToISO\<close>, finding fewer than three parts in it, answers with the current day
  (here 2026-11-03) for a file of the declared year 2024.
\<close>

theorem header_without_date_gives_today:
  "exec dateRegex True (units ''Lisboa | n.'' @ [186] @ units '' 3 | Vol. 91'') = None
   \<and> extractGlobalMetadata sampleHost placeHeader sampleFile =
       Inr \<lparr>date = units ''2026-11-03'',
            reference = units ''BTE n.'' @ [186] @ units '' 3, Vol. 91, de Lisboa''\<rparr>
   \<and> year sampleFile @ units ''-01-01'' = units ''2024-01-01''"
  by (simp add: placeHeader_def sampleFile_def meta_rules regex_rules)

text \<open>
  C4, amended. Metadata extraction returns a result for every sequence of lines: it never
  throws. The date it returns is decided by the date text the scan of the first ten lines
  ends with (\<open>foundDateText\<close>). If that text is empty, the date is the declared year
  followed by "-01-01"; this is so in particular when none of the ten lines matches the
  header pattern or holds a date. If it is not empty, be it a date or whatever precedes
  the first separator of a header line, the date is what \<open>convertDateToISO\<close> makes of it,
  and that is the current day, not the default of the declared year, when the text has
  fewer than three parts.
\<close>

theorem metadata_total_and_date:
  "(\<exists>m. extractGlobalMetadata env lines file = Inr m)
   \<and> (scanLines (take 10 lines) ([], Some [], Some (number file)) = Inr (d, v, n) \<longrightarrow>
        (\<exists>m. extractGlobalMetadata env lines file = Inr m
             \<and> (if d = [] then date m = year file @ units ''-01-01''
                 else convertDateToISO env d = Inr (date m))))
   \<and> ((\<forall>l \<in> set (take 10 lines).
          exec headerLineRegex True (trim (line_text l)) = None
          \<and> exec dateRegex True (trim (line_text l)) = None) \<longrightarrow>
        (\<exists>m. extractGlobalMetadata env lines file = Inr m
             \<and> date m = year file @ units ''-01-01''))
   \<and> (scanLines (take 10 lines) ([], Some [], Some (number file)) = Inr (d, v, n)
        \<and> d \<noteq> []
        \<and> length (splitRe (many1 space) True []
                    (replaceAll False (seqs [many1 space, lit (units ''de''), many1 space])
                       (\<lambda>c. [32]) True (toLowerCase env d))) < 3 \<longrightarrow>
        (\<exists>m. extractGlobalMetadata env lines file = Inr m \<and> date m = today env))"
proof (intro conjI impI)
  from scanLines_total obtain f where
    "scanLines (take 10 lines) ([], Some [], Some (number file)) = Inr f" by blast
  moreover obtain d' v' n' where "f = (d', v', n')" using prod_cases3 by blast
  ultimately have "scanLines (take 10 lines) ([], Some [], Some (number file)) = Inr (d', v', n')"
    by simp
  from extractGlobalMetadata_cases [OF this, of env]
  show "\<exists>m. extractGlobalMetadata env lines file = Inr m" by blast
next
  assume "scanLines (take 10 lines) ([], Some [], Some (number file)) = Inr (d, v, n)"
  from extractGlobalMetadata_cases [OF this, of env]
  show "\<exists>m. extractGlobalMetadata env lines file = Inr m
             \<and> (if d = [] then date m = year file @ units ''-01-01''
                 else convertDateToISO env d = Inr (date m))"
    by (cases "d = []") auto
next
  assume "\<forall>l \<in> set (take 10 lines).
          exec headerLineRegex True (trim (line_text l)) = None
          \<and> exec dateRegex True (trim (line_text l)) = None"
  from scanLines_nothing [OF this]
  have "scanLines (take 10 lines) ([], Some [], Some (number file))
          = Inr ([], Some [], Some (number file))" .
  from extractGlobalMetadata_cases [OF this, of env]
  show "\<exists>m. extractGlobalMetadata env lines file = Inr m
             \<and> date m = year file @ units ''-01-01''" by auto
next
  assume a: "scanLines (take 10 lines) ([], Some [], Some (number file)) = Inr (d, v, n)
        \<and> d \<noteq> []
        \<and> length (splitRe (many1 space) True []
                    (replaceAll False (seqs [many1 space, lit (units ''de''), many1 space])
                       (\<lambda>c. [32]) True (toLowerCase env d))) < 3"
  then have c: "convertDateToISO env d = Inr (today env)"
    by (simp add: convertDateToISO_def Let_def)
  from a have "scanLines (take 10 lines) ([], Some [], Some (number file)) = Inr (d, v, n)"
    by simp
  from extractGlobalMetadata_cases [OF this, of env] a c
  show "\<exists>m. extractGlobalMetadata env lines file = Inr m \<and> date m = today env"
    by auto
qed

theorem metadata_total_and_date_witness:
  "scanLines (take 10 sampleLines) ([], Some [], Some (number sampleFile))
     = Inr ([], Some [], Some (units ''7''))
   \<and> (\<exists>m. extractGlobalMetadata sampleHost sampleLines sampleFile = Inr m
          \<and> date m = units ''2024'' @ units ''-01-01'')
   \<and> scanLines (take 10 placeHeader) ([], Some [], Some (number sampleFile))
       = Inr (units ''Lisboa'', Some (units ''91''), Some (units ''3''))
   \<and> (\<exists>m. extractGlobalMetadata sampleHost placeHeader sampleFile = Inr m
          \<and> date m = today sampleHost)"
proof -
  have h: "\<forall>l \<in> set (take 10 sampleLines).
       exec headerLineRegex True (trim (line_text l)) = None
       \<and> exec dateRegex True (trim (line_text l)) = None"
    by (simp add: sampleLines_def headerLineRegex_def dateRegex_def monthsRegex_def regex_rules)
  have y: "year sampleFile = units ''2024''" and n: "number sampleFile = units ''7''"
    by (simp_all add: sampleFile_def)
  from scanLines_nothing [OF h]
  have sc: "scanLines (take 10 sampleLines) ([], Some [], Some (number sampleFile))
     = Inr ([], Some [], Some (units ''7''))" unfolding n .
  from metadata_total_and_date
         [of sampleHost sampleLines sampleFile "[]" "Some []" "Some (units ''7'')"] h
  have one: "\<exists>m. extractGlobalMetadata sampleHost sampleLines sampleFile = Inr m
          \<and> date m = units ''2024'' @ units ''-01-01''" unfolding y by blast
  have sp: "scanLines (take 10 placeHeader) ([], Some [], Some (number sampleFile))
       = Inr (units ''Lisboa'', Some (units ''91''), Some (units ''3''))"
    by (simp add: placeHeader_def sampleFile_def headerLineRegex_def regex_rules Let_def)
  have ne: "units ''Lisboa'' \<noteq> []" by (simp add: units_def)
  have len: "length (splitRe (many1 space) True []
                    (replaceAll False (seqs [many1 space, lit (units ''de''), many1 space])
                       (\<lambda>c. [32]) True (toLowerCase sampleHost (units ''Lisboa'')))) < 3"
    by (simp add: sampleHost_def sampleLower_def regex_rules)
  from metadata_total_and_date
         [of sampleHost placeHeader sampleFile "units ''Lisboa''" "Some (units ''91'')"
             "Some (units ''3'')"] sp ne len
  have two: "\<exists>m. extractGlobalMetadata sampleHost placeHeader sampleFile = Inr m
          \<and> date m = today sampleHost" by blast
  from sc one sp two show ?thesis by blast
qed

section \<open>The invariant of the tree builder\<close>

lemma popUntilType_stack:
  "stk \<noteq> [] \<Longrightarrow> hd stk = 0 \<Longrightarrow>
   popUntilType h stk types \<noteq> [] \<and> hd (popUntilType h stk types) = 0
   \<and> set (popUntilType h stk types) \<subseteq> set stk"
proof (induction h stk types rule: popUntilType.induct)
  case (1 h stk types)
  show ?case
  proof (cases "length stk > 1 \<and> node_type (h ! last stk) \<notin> set types")
    case True
    then have ne: "butlast stk \<noteq> []" by (cases stk) auto
    have hd: "hd (butlast stk) = 0" using "1.prems" ne by (cases stk) auto
    have sub: "set (butlast stk) \<subseteq> set stk" by (auto dest: in_set_butlastD)
    have eq: "popUntilType h stk types = popUntilType h (butlast stk) types"
      using True by (subst popUntilType.simps) simp
    from "1.IH" [OF _ _ ne hd] True sub show ?thesis unfolding eq by auto
  next
    case False
    then have "popUntilType h stk types = stk"
      by (subst popUntilType.simps) auto
    with "1.prems" show ?thesis by simp
  qed
qed

lemma popUntilType_top:
  "stk \<noteq> [] \<Longrightarrow> hd stk = 0 \<Longrightarrow> node_type (h ! 0) \<in> set types \<Longrightarrow>
   node_type (h ! last (popUntilType h stk types)) \<in> set types"
proof (induction h stk types rule: popUntilType.induct)
  case (1 h stk types)
  show ?case
  proof (cases "length stk > 1")
    case True
    show ?thesis
    proof (cases "node_type (h ! last stk) \<in> set types")
      case True
      then show ?thesis by (subst popUntilType.simps) simp
    next
      case False
      have ne: "butlast stk \<noteq> []" using \<open>length stk > 1\<close> by (cases stk) auto
      have hd: "hd (butlast stk) = 0" using "1.prems" ne by (cases stk) auto
      have eq: "popUntilType h stk types = popUntilType h (butlast stk) types"
        using False \<open>length stk > 1\<close> by (subst popUntilType.simps) simp
      from "1.IH" [OF \<open>length stk > 1\<close> False ne hd "1.prems"(3)] show ?thesis
        unfolding eq .
    qed
  next
    case False
    with "1.prems" have "stk = [0]" by (cases stk) auto
    then show ?thesis using "1.prems" by (subst popUntilType.simps) simp
  qed
qed

lemma kids_simps [simp]:
  "kids (n\<lparr>children := Some cs\<rparr>) = cs"
  "kids (n\<lparr>node_text := t\<rparr>) = kids n"
  by (simp_all add: kids_def)

lemma addChild_heap:
  "heap (addChild st node) =
     (heap st)[last (stack st) :=
        (heap st ! last (stack st))\<lparr>children := Some (kids (heap st ! last (stack st)) @ [length (heap st)])\<rparr>]
     @ [node]"
  by (simp add: addChild_def Let_def kids_def)

lemma addChild_stack: "stack (addChild st node) = stack st @ [length (heap st)]"
  by (simp add: addChild_def Let_def)

lemma addChild_length: "length (heap (addChild st node)) = Suc (length (heap st))"
  by (simp add: addChild_heap)

lemma addChild_type:
  "i < length (heap st) \<Longrightarrow> node_type (heap (addChild st node) ! i) = node_type (heap st ! i)"
  by (cases "i = last (stack st)") (simp_all add: addChild_heap nth_append)

lemma addChild_text:
  "i < length (heap st) \<Longrightarrow> node_text (heap (addChild st node) ! i) = node_text (heap st ! i)"
  by (cases "i = last (stack st)") (simp_all add: addChild_heap nth_append)

lemma addChild_kids:
  "i < length (heap st) \<Longrightarrow>
   kids (heap (addChild st node) ! i) =
     (if i = last (stack st) then kids (heap st ! i) @ [length (heap st)] else kids (heap st ! i))"
  by (cases "i = last (stack st)") (simp_all add: addChild_heap nth_append)

lemma addChild_new: "heap (addChild st node) ! length (heap st) = node"
  by (simp add: addChild_heap nth_append)

lemma edgesOkD:
  "edgesOk h \<Longrightarrow> p < length h \<Longrightarrow> c \<in> set (kids (h ! p)) \<Longrightarrow>
   c < length h \<and> p < c \<and> parentOk (node_type (h ! p)) (node_type (h ! c))"
  unfolding edgesOk_def by blast

lemma rootedD:
  "rooted h \<Longrightarrow> 0 < c \<Longrightarrow> c < length h \<Longrightarrow>
   node_type (h ! c) \<noteq> Root \<and> (\<exists>p < c. c \<in> set (kids (h ! p)))"
  unfolding rooted_def by blast

lemma rooted_root: "rooted h \<Longrightarrow> h \<noteq> [] \<and> node_type (h ! 0) = Root"
  unfolding rooted_def by blast

lemma textsOkD:
  "textsOk h \<Longrightarrow> a < length h \<Longrightarrow> node_type (h ! a) = Article \<Longrightarrow> node_text (h ! a) \<noteq> None"
  unfolding textsOk_def by blast

lemma textsOk_root: "textsOk h \<Longrightarrow> node_text (h ! 0) = None"
  unfolding textsOk_def by blast

lemma addChild_wf:
  assumes wf: "wfBuilder st"
    and ok: "parentOk (node_type (heap st ! last (stack st))) (node_type node)"
    and leaf: "kids node = []"
    and art: "node_type node = Article \<longrightarrow> node_text node \<noteq> None"
  shows "wfBuilder (addChild st node)"
proof -
  let ?h = "heap st" and ?h' = "heap (addChild st node)" and ?a = "length (heap st)"
  let ?par = "last (stack st)"
  from wf have e: "edgesOk ?h" and r: "rooted ?h" and t: "textsOk ?h" and s: "stackOk st"
    by (simp_all add: wfBuilder_def)
  from s have par: "?par < ?a" by (simp add: stackOk_def)
  from r have pos: "0 < ?a" by (simp add: rooted_def)
  from ok have notroot: "node_type node \<noteq> Root" by (cases "node_type node") simp_all
  have len: "length ?h' = Suc ?a" by (rule addChild_length)
  have "edgesOk ?h'"
    unfolding edgesOk_def
  proof (intro allI impI ballI)
    fix p c assume p: "p < length ?h'" and c: "c \<in> set (kids (?h' ! p))"
    from p have "p < ?a \<or> p = ?a" unfolding len by arith
    then show "c < length ?h' \<and> p < c \<and> parentOk (node_type (?h' ! p)) (node_type (?h' ! c))"
    proof
      assume pa: "p < ?a"
      have tp: "node_type (?h' ! p) = node_type (?h ! p)" using pa by (rule addChild_type)
      show ?thesis
      proof (cases "c \<in> set (kids (?h ! p))")
        case True
        from edgesOkD [OF e pa True]
        have c1: "c < ?a" and c2: "p < c"
          and c3: "parentOk (node_type (?h ! p)) (node_type (?h ! c))" by simp_all
        have "node_type (?h' ! c) = node_type (?h ! c)" using c1 by (rule addChild_type)
        with c1 c2 c3 tp show ?thesis unfolding len by simp
      next
        case False
        have k: "kids (?h' ! p) = (if p = ?par then kids (?h ! p) @ [?a] else kids (?h ! p))"
          using pa by (rule addChild_kids)
        have pc1: "p = ?par"
        proof (rule ccontr)
          assume "p \<noteq> ?par"
          with k have "kids (?h' ! p) = kids (?h ! p)" by simp
          with c False show False by simp
        qed
        with k have "kids (?h' ! p) = kids (?h ! p) @ [?a]" by simp
        with c False have pc2: "c = ?a" by simp
        note pc = pc1 pc2
        have "node_type (?h' ! c) = node_type node" unfolding pc by (rule arg_cong [OF addChild_new])
        with pc pa ok tp show ?thesis unfolding len by simp
      qed
    next
      assume "p = ?a"
      with c leaf show ?thesis by (simp add: addChild_new)
    qed
  qed
  moreover have "rooted ?h'"
    unfolding rooted_def
  proof (intro conjI allI impI)
    show "?h' \<noteq> []" by (simp add: addChild_heap)
    show "node_type (?h' ! 0) = Root" using rooted_root [OF r] pos by (simp add: addChild_type)
  next
    fix c assume c: "0 < c \<and> c < length ?h'"
    then have "c < ?a \<or> c = ?a" unfolding len by arith
    then show "node_type (?h' ! c) \<noteq> Root"
    proof
      assume ca: "c < ?a"
      with rootedD [OF r _ ca] c show ?thesis by (simp add: addChild_type)
    next
      assume "c = ?a"
      with notroot show ?thesis by (simp add: addChild_new)
    qed
  next
    fix c assume c: "0 < c \<and> c < length ?h'"
    then have "c < ?a \<or> c = ?a" unfolding len by arith
    then show "\<exists>p<c. c \<in> set (kids (?h' ! p))"
    proof
      assume ca: "c < ?a"
      from rootedD [OF r _ ca] c obtain p where p: "p < c" "c \<in> set (kids (?h ! p))" by blast
      from p(1) ca have "p < ?a" by simp
      with p(2) have "c \<in> set (kids (?h' ! p))"
        by (cases "p = ?par") (simp_all add: addChild_kids)
      with p(1) show ?thesis by blast
    next
      assume ca: "c = ?a"
      from par have "?a \<in> set (kids (?h' ! ?par))" by (simp add: addChild_kids)
      with par ca show ?thesis by blast
    qed
  qed
  moreover have "textsOk ?h'"
    unfolding textsOk_def
  proof (intro conjI allI impI)
    show "node_text (?h' ! 0) = None" using textsOk_root [OF t] pos by (simp add: addChild_text)
  next
    fix a assume a: "a < length ?h'" and ar: "node_type (?h' ! a) = Article"
    from a have "a < ?a \<or> a = ?a" unfolding len by arith
    then show "node_text (?h' ! a) \<noteq> None"
    proof
      assume aa: "a < ?a"
      with ar have "node_type (?h ! a) = Article" by (simp add: addChild_type)
      from textsOkD [OF t aa this] aa show ?thesis by (simp add: addChild_text)
    next
      assume "a = ?a"
      with ar art show ?thesis by (simp add: addChild_new)
    qed
  qed
  moreover have "stackOk (addChild st node)"
    unfolding stackOk_def addChild_stack len
  proof (intro conjI ballI)
    from s show "stack st @ [?a] \<noteq> []" by simp
    from s show "hd (stack st @ [?a]) = 0" by (simp add: stackOk_def)
    fix a assume "a \<in> set (stack st @ [?a])"
    then have "a \<in> set (stack st) \<or> a = ?a" by auto
    with s show "a < Suc ?a" unfolding stackOk_def by auto
  qed
  ultimately show ?thesis by (simp add: wfBuilder_def)
qed

lemma text_update_type:
  "node_type (h[a := (h ! a)\<lparr>node_text := t\<rparr>] ! i) = node_type (h ! i)"
  by (cases "i = a"; cases "a < length h") (simp_all add: list_update_beyond)

lemma text_update_kids:
  "kids (h[a := (h ! a)\<lparr>node_text := t\<rparr>] ! i) = kids (h ! i)"
  by (cases "i = a"; cases "a < length h") (simp_all add: list_update_beyond)

lemma text_update_text:
  "a < length h \<Longrightarrow>
   node_text (h[a := (h ! a)\<lparr>node_text := t\<rparr>] ! i) = (if i = a then t else node_text (h ! i))"
  by (cases "i = a") simp_all

lemma appendText_cases:
  "appendText st txt = st \<or>
   (node_type (heap st ! last (stack st)) \<noteq> Root \<and>
    (\<exists>t. appendText st txt =
       st\<lparr>heap := (heap st)[last (stack st) :=
              (heap st ! last (stack st))\<lparr>node_text := Some t\<rparr>]\<rparr>))"
  by (cases "node_type (heap st ! last (stack st)) = Root") (auto simp: appendText_def Let_def)

lemma appendText_wf:
  assumes wf: "wfBuilder st"
  shows "wfBuilder (appendText st txt)"
proof -
  let ?a = "last (stack st)" and ?h = "heap st"
  from wf have e: "edgesOk ?h" and r: "rooted ?h" and t: "textsOk ?h" and s: "stackOk st"
    by (simp_all add: wfBuilder_def)
  from s have a: "?a < length ?h" by (simp add: stackOk_def)
  from appendText_cases show ?thesis
  proof
    assume "appendText st txt = st"
    with wf show ?thesis by simp
  next
    assume "node_type (?h ! ?a) \<noteq> Root \<and>
      (\<exists>t. appendText st txt = st\<lparr>heap := ?h[?a := (?h ! ?a)\<lparr>node_text := Some t\<rparr>]\<rparr>)"
    then obtain t' where nr: "node_type (?h ! ?a) \<noteq> Root"
      and eq: "appendText st txt = st\<lparr>heap := ?h[?a := (?h ! ?a)\<lparr>node_text := Some t'\<rparr>]\<rparr>"
      by blast
    let ?h' = "?h[?a := (?h ! ?a)\<lparr>node_text := Some t'\<rparr>]"
    have a0: "?a \<noteq> 0"
    proof
      assume "?a = 0"
      with nr rooted_root [OF r] show False by simp
    qed
    have "edgesOk ?h'"
      unfolding edgesOk_def
    proof (intro allI impI ballI)
      fix p c assume "p < length ?h'" and "c \<in> set (kids (?h' ! p))"
      then have "p < length ?h" and "c \<in> set (kids (?h ! p))"
        by (simp_all add: text_update_kids)
      from edgesOkD [OF e this]
      show "c < length ?h' \<and> p < c \<and> parentOk (node_type (?h' ! p)) (node_type (?h' ! c))"
        by (simp add: text_update_type)
    qed
    moreover have "rooted ?h'"
      unfolding rooted_def
    proof (intro conjI allI impI)
      from rooted_root [OF r] show "?h' \<noteq> []" by simp
      from rooted_root [OF r] show "node_type (?h' ! 0) = Root" by (simp add: text_update_type)
    next
      fix c assume "0 < c \<and> c < length ?h'"
      then have "0 < c" "c < length ?h" by simp_all
      from rootedD [OF r this] show "node_type (?h' ! c) \<noteq> Root"
        by (simp add: text_update_type)
    next
      fix c assume "0 < c \<and> c < length ?h'"
      then have "0 < c" "c < length ?h" by simp_all
      from rootedD [OF r this] show "\<exists>p<c. c \<in> set (kids (?h' ! p))"
        by (simp add: text_update_kids)
    qed
    moreover have "textsOk ?h'"
      unfolding textsOk_def
    proof (intro conjI allI impI)
      from textsOk_root [OF t] a a0 show "node_text (?h' ! 0) = None"
        by (simp add: text_update_text)
    next
      fix b assume b: "b < length ?h'" and ar: "node_type (?h' ! b) = Article"
      show "node_text (?h' ! b) \<noteq> None"
      proof (cases "b = ?a")
        case True
        with a show ?thesis by (simp add: text_update_text)
      next
        case False
        from b ar have "b < length ?h" "node_type (?h ! b) = Article"
          by (simp_all add: text_update_type)
        from textsOkD [OF t this] False a show ?thesis by (simp add: text_update_text)
      qed
    qed
    moreover have "stackOk (st\<lparr>heap := ?h'\<rparr>)"
      using s unfolding stackOk_def by simp
    ultimately show ?thesis unfolding eq wfBuilder_def by simp
  qed
qed

lemma matchedType_not_Root: "matchedType txt = Some t \<Longrightarrow> t \<noteq> Root"
  by (auto simp: matchedType_def split: if_splits)

lemma newNode_simps [simp]:
  "node_type (newNode t hdr) = t"
  "kids (newNode t hdr) = []"
  "node_type (newNode t hdr) = Article \<longrightarrow> node_text (newNode t hdr) \<noteq> None"
  "header (newNode t hdr) = Some hdr"
  by (simp_all add: newNode_def kids_def)

lemma popped_wf:
  assumes wf: "wfBuilder st"
  shows "wfBuilder (st\<lparr>stack := popUntilType (heap st) (stack st) types\<rparr>)"
proof -
  from wf have s: "stackOk st" by (simp add: wfBuilder_def)
  then have "stack st \<noteq> []" "hd (stack st) = 0" by (simp_all add: stackOk_def)
  from popUntilType_stack [OF this, of "heap st" types] s
  have "stackOk (st\<lparr>stack := popUntilType (heap st) (stack st) types\<rparr>)"
    unfolding stackOk_def by auto
  with wf show ?thesis by (simp add: wfBuilder_def)
qed

lemma popped_top:
  assumes wf: "wfBuilder st" and root: "Root \<in> set types"
  shows "node_type (heap st ! last (popUntilType (heap st) (stack st) types)) \<in> set types"
proof -
  from wf have s: "stackOk st" and r: "rooted (heap st)" by (simp_all add: wfBuilder_def)
  from s have "stack st \<noteq> []" "hd (stack st) = 0" by (simp_all add: stackOk_def)
  moreover from rooted_root [OF r] root have "node_type (heap st ! 0) \<in> set types" by simp
  ultimately show ?thesis by (rule popUntilType_top)
qed

lemma placeNode_wf:
  assumes wf: "wfBuilder st" and t: "t \<noteq> Root"
  shows "wfBuilder (placeNode t (newNode t hdr) st)"
proof (cases t)
  case Root
  with t show ?thesis by simp
next
  case Diploma
  from wf have r: "rooted (heap st)" by (simp add: wfBuilder_def)
  with wf have "wfBuilder (st\<lparr>stack := [0]\<rparr>)"
    by (simp add: wfBuilder_def stackOk_def rooted_def)
  moreover have "parentOk (node_type (heap (st\<lparr>stack := [0]\<rparr>) ! last (stack (st\<lparr>stack := [0]\<rparr>))))
                   (node_type (newNode Diploma hdr))"
    using rooted_root [OF r] by simp
  ultimately have "wfBuilder (addChild (st\<lparr>stack := [0]\<rparr>) (newNode Diploma hdr))"
    by (rule addChild_wf) simp_all
  with Diploma show ?thesis by (simp add: placeNode_def)
next
  case Chapter
  let ?st = "st\<lparr>stack := popUntilType (heap st) (stack st) [Diploma, Root]\<rparr>"
  have "wfBuilder ?st" using wf by (rule popped_wf)
  moreover have "parentOk (node_type (heap ?st ! last (stack ?st))) (node_type (newNode Chapter hdr))"
    using popped_top [OF wf, of "[Diploma, Root]"] by auto
  ultimately have "wfBuilder (addChild ?st (newNode Chapter hdr))"
    by (rule addChild_wf) simp_all
  with Chapter show ?thesis by (simp add: placeNode_def)
next
  case Article
  let ?st = "st\<lparr>stack := popUntilType (heap st) (stack st) [Chapter, Diploma, Root]\<rparr>"
  have "wfBuilder ?st" using wf by (rule popped_wf)
  moreover have "parentOk (node_type (heap ?st ! last (stack ?st))) (node_type (newNode Article hdr))"
    using popped_top [OF wf, of "[Chapter, Diploma, Root]"] by auto
  ultimately have "wfBuilder (addChild ?st (newNode Article hdr))"
    by (rule addChild_wf) simp_all
  with Article show ?thesis by (simp add: placeNode_def)
qed

lemma buildFrom_wf: "wfBuilder st \<Longrightarrow> wfBuilder (buildFrom st ls)"
proof (induction "length ls" arbitrary: st ls rule: less_induct)
  case less
  show ?case
  proof (cases ls)
    case Nil
    with less.prems show ?thesis by simp
  next
    case (Cons line rest)
    let ?txt = "trim (line_text line)"
    show ?thesis
    proof (cases "matchedType ?txt")
      case None
      have "wfBuilder (buildFrom (appendText st ?txt) rest)"
        by (rule less.hyps) (simp_all add: Cons appendText_wf less.prems)
      with None Cons show ?thesis by simp
    next
      case (Some t)
      obtain hdr n where hn:
        "(if \<not> isStrictPreambulo ?txt then mergeHeader ?txt rest else (?txt, 0)) = (hdr, n)"
        by (cases "if \<not> isStrictPreambulo ?txt then mergeHeader ?txt rest else (?txt, 0)")
      have "wfBuilder (buildFrom (placeNode t (newNode t hdr) st) (drop n rest))"
        by (rule less.hyps)
           (simp_all add: Cons placeNode_wf less.prems matchedType_not_Root [OF Some])
      with Some Cons hn show ?thesis by simp
    qed
  qed
qed

lemma initial_wf: "wfBuilder initialBuilder"
  by (auto simp: initialBuilder_def wfBuilder_def edgesOk_def rooted_def textsOk_def
      stackOk_def kids_def)

lemma buildTree_wf:
  "edgesOk (buildTree ls) \<and> rooted (buildTree ls) \<and> textsOk (buildTree ls)"
  using buildFrom_wf [OF initial_wf, of ls] by (simp add: buildTree_def wfBuilder_def)


section \<open>Properties of the trees built\<close>

lemmas tree_rules = buildTree_def initialBuilder_def matchedType_def isStrictPreambulo_def looksLikeTitle_def newNode_def
  addChild_def placeNode_def appendText_def popUntilType.simps diplomaPattern_def structurePattern_def
  articlePattern_def preambulo_def Let_def

lemma buildTree_sample: "buildTree sampleLines = sampleTree"
  by (simp add: sampleLines_def sampleTree_def tree_rules regex_rules)

lemma mergeHeader_takeWhile:
  "mergeHeader h rest =
     (foldl (\<lambda>h x. h @ [32] @ x) h (takeWhile looksLikeTitle (map (\<lambda>l. trim (line_text l)) rest)),
      length (takeWhile looksLikeTitle (map (\<lambda>l. trim (line_text l)) rest)))"
  by (induction rest arbitrary: h) (simp_all add: Let_def)

lemma drop_takeWhile_map:
  "drop (length (takeWhile P (map f xs))) xs = dropWhile (\<lambda>x. P (f x)) xs"
  by (induction xs) simp_all

lemma levels_path:
  "edgesOk h \<Longrightarrow> isPath h path \<Longrightarrow>
   sorted_wrt (<) (map (\<lambda>a. level (node_type (h ! a))) path)"
proof (induction h path rule: isPath.induct)
  case (3 h a b rest)
  then have ab: "a < length h" "b \<in> set (kids (h ! a))" and rest: "isPath h (b # rest)"
    by simp_all
  from edgesOkD [OF "3.prems"(1) ab]
  have "parentOk (node_type (h ! a)) (node_type (h ! b))" by simp
  then have lt: "level (node_type (h ! a)) < level (node_type (h ! b))"
    by (cases "node_type (h ! b)") auto
  from "3.IH" [OF "3.prems"(1) rest]
  have s: "sorted_wrt (<) (map (\<lambda>a. level (node_type (h ! a))) (b # rest))" .
  then have "\<forall>x \<in> set rest. level (node_type (h ! b)) < level (node_type (h ! x))" by simp
  with lt have "\<forall>x \<in> set (b # rest). level (node_type (h ! a)) < level (node_type (h ! x))"
    by auto
  with s show ?case by simp
qed simp_all

lemma level_bound: "level t < 4"
  by (cases t) simp_all

lemma strict_levels_length:
  assumes "sorted_wrt (<) (map (\<lambda>a. level (node_type (h ! a))) path)"
  shows "length path \<le> 4"
proof -
  let ?ls = "map (\<lambda>a. level (node_type (h ! a))) path"
  from assms have d: "distinct ?ls" by (simp add: strict_sorted_iff)
  have "length path = length ?ls" by simp
  also have "\<dots> = card (set ?ls)" using d by (rule distinct_card [symmetric])
  also have "\<dots> \<le> card {0..<4::nat}" by (intro card_mono) (auto simp: level_bound)
  finally show ?thesis by simp
qed

text \<open>
  C5. In the tree built from any sequence of lines, every node but the root is a child of
  an earlier node; the parent of a diploma node is the root, the parent of a chapter node
  is a diploma node or the root, and the parent of an article node is a chapter node, a
  diploma node or the root.
\<close>

theorem buildTree_parent_kinds:
  "(\<forall>c. 0 < c \<and> c < length (buildTree ls) \<longrightarrow>
        (\<exists>p < c. c \<in> set (kids (buildTree ls ! p))))
   \<and> (\<forall>p c. p < length (buildTree ls) \<and> c \<in> set (kids (buildTree ls ! p)) \<longrightarrow>
        (node_type (buildTree ls ! c) = Diploma \<longrightarrow> node_type (buildTree ls ! p) = Root)
      \<and> (node_type (buildTree ls ! c) = Chapter \<longrightarrow>
           node_type (buildTree ls ! p) = Diploma \<or> node_type (buildTree ls ! p) = Root)
      \<and> (node_type (buildTree ls ! c) = Article \<longrightarrow>
           node_type (buildTree ls ! p) = Chapter \<or> node_type (buildTree ls ! p) = Diploma
           \<or> node_type (buildTree ls ! p) = Root))"
proof (intro conjI allI impI)
  fix c assume "0 < c \<and> c < length (buildTree ls)"
  then have "0 < c" "c < length (buildTree ls)" by simp_all
  from rootedD [OF _ this] buildTree_wf [of ls]
  show "\<exists>p < c. c \<in> set (kids (buildTree ls ! p))" by blast
next
  fix p c
  assume "p < length (buildTree ls) \<and> c \<in> set (kids (buildTree ls ! p))"
  then have pc: "p < length (buildTree ls)" "c \<in> set (kids (buildTree ls ! p))" by simp_all
  from buildTree_wf [of ls] have "edgesOk (buildTree ls)" by simp
  from edgesOkD [OF this pc]
  have ok: "parentOk (node_type (buildTree ls ! p)) (node_type (buildTree ls ! c))" by simp
  { assume "node_type (buildTree ls ! c) = Diploma"
    with ok show "node_type (buildTree ls ! p) = Root" by simp }
  { assume "node_type (buildTree ls ! c) = Chapter"
    with ok show "node_type (buildTree ls ! p) = Diploma \<or> node_type (buildTree ls ! p) = Root"
      by simp }
  { assume "node_type (buildTree ls ! c) = Article"
    with ok show "node_type (buildTree ls ! p) = Chapter \<or> node_type (buildTree ls ! p) = Diploma
           \<or> node_type (buildTree ls ! p) = Root" by simp }
qed

theorem buildTree_parent_kinds_witness:
  "3 < length (buildTree sampleLines) \<and> 3 \<in> set (kids (buildTree sampleLines ! 2))
   \<and> node_type (buildTree sampleLines ! 3) = Article
   \<and> (node_type (buildTree sampleLines ! 2) = Chapter
        \<or> node_type (buildTree sampleLines ! 2) = Diploma
        \<or> node_type (buildTree sampleLines ! 2) = Root)
   \<and> (\<exists>p < 3. 3 \<in> set (kids (buildTree sampleLines ! p)))"
proof -
  have a: "2 < length (buildTree sampleLines) \<and> 3 \<in> set (kids (buildTree sampleLines ! 2))"
    and b: "node_type (buildTree sampleLines ! 3) = Article"
    and c: "0 < (3::nat) \<and> 3 < length (buildTree sampleLines)"
    by (simp_all add: buildTree_sample sampleTree_def kids_def)
  from buildTree_parent_kinds [of sampleLines] a b c show ?thesis by blast
qed

text \<open>
  C6. In the tree built from any sequence of lines the root carries no text (a line that
  is no header is dropped while the root is on top of the stack), and every article node
  carries a text, which is the empty string when the node is created.
\<close>

theorem buildTree_texts:
  "node_type (buildTree ls ! 0) = Root \<and> node_text (buildTree ls ! 0) = None
   \<and> (\<forall>a < length (buildTree ls).
         node_type (buildTree ls ! a) = Article \<longrightarrow> node_text (buildTree ls ! a) \<noteq> None)
   \<and> (node_type (heap st ! last (stack st)) = Root \<longrightarrow> appendText st txt = st)
   \<and> node_text (newNode Article headerText) = Some []"
proof (intro conjI)
  from buildTree_wf [of ls] have r: "rooted (buildTree ls)" and t: "textsOk (buildTree ls)"
    by simp_all
  from rooted_root [OF r] show "node_type (buildTree ls ! 0) = Root" by simp
  from textsOk_root [OF t] show "node_text (buildTree ls ! 0) = None" .
  from t show "\<forall>a < length (buildTree ls).
         node_type (buildTree ls ! a) = Article \<longrightarrow> node_text (buildTree ls ! a) \<noteq> None"
    unfolding textsOk_def by blast
  show "node_type (heap st ! last (stack st)) = Root \<longrightarrow> appendText st txt = st"
    by (simp add: appendText_def)
  show "node_text (newNode Article headerText) = Some []"
    by (simp add: newNode_def)
qed

theorem buildTree_texts_witness:
  "3 < length (buildTree sampleLines) \<and> node_type (buildTree sampleLines ! 3) = Article
   \<and> node_text (buildTree sampleLines ! 3) \<noteq> None
   \<and> node_text (buildTree sampleLines ! 0) = None"
proof -
  have a: "3 < length (buildTree sampleLines)"
    and b: "node_type (buildTree sampleLines ! 3) = Article"
    by (simp_all add: buildTree_sample sampleTree_def)
  from buildTree_texts [of sampleLines] a b show ?thesis by blast
qed

text \<open>
  C10. In the tree built from any sequence of lines, along every path downward (from the
  root or from any other node) the levels of the kinds, root 0, diploma 1, chapter 2,
  article 3, increase strictly: no kind occurs twice on a path, no diploma lies under a
  diploma, no chapter under a chapter or an article, no article under an article, and a
  path has at most four nodes.
\<close>

theorem buildTree_levels:
  "isPath (buildTree ls) path \<Longrightarrow>
   sorted_wrt (<) (map (\<lambda>a. level (node_type (buildTree ls ! a))) path) \<and> length path \<le> 4"
proof -
  assume p: "isPath (buildTree ls) path"
  from buildTree_wf [of ls] have "edgesOk (buildTree ls)" by simp
  from levels_path [OF this p]
  have s: "sorted_wrt (<) (map (\<lambda>a. level (node_type (buildTree ls ! a))) path)" .
  from s strict_levels_length [OF s] show ?thesis by simp
qed

theorem buildTree_levels_witness:
  "isPath (buildTree sampleLines) [0, 1, 2, 3]
   \<and> sorted_wrt (<) (map (\<lambda>a. level (node_type (buildTree sampleLines ! a))) [0, 1, 2, 3])
   \<and> length [0, 1, 2, 3 :: nat] \<le> 4"
proof -
  have "isPath (buildTree sampleLines) [0, 1, 2, 3]"
    by (simp add: buildTree_sample sampleTree_def kids_def)
  with buildTree_levels [of sampleLines "[0, 1, 2, 3]"] show ?thesis by blast
qed


text \<open>
  C7. When a line matches one of the three patterns and is not the bare preamble caption,
  the header of the new node is the line followed, each after one space, by the longest
  run of next lines that look like a title: a line looks like a title exactly when it is
  not empty, is shorter than 250 code units, matches none of the article, structure and
  diploma patterns, does not begin with digits and a dot or hyphen, does not begin with
  the preamble caption and does not end in a dot, colon or semicolon. The builder goes on
  with the first line after that run. In particular "Portaria n.o 123/2024" followed by
  "de regulamentacao do trabalho" (written with cedilla and tilde) gives one diploma node with the merged header.
\<close>

theorem header_merging:
  "(matchedType (trim (line_text l)) = Some t \<longrightarrow> \<not> isStrictPreambulo (trim (line_text l)) \<longrightarrow>
      buildFrom st (l # rest) =
        buildFrom
          (placeNode t
             (newNode t
                (foldl (\<lambda>h x. h @ [32] @ x) (trim (line_text l))
                   (takeWhile looksLikeTitle (map (\<lambda>l. trim (line_text l)) rest))))
             st)
          (dropWhile (\<lambda>l. looksLikeTitle (trim (line_text l))) rest))
   \<and> looksLikeTitle x =
        (length x > 0 \<and> length x < 250 \<and> \<not> test articlePattern x
         \<and> \<not> test structurePattern x \<and> \<not> test diplomaPattern x
         \<and> \<not> test (seqs [Bol, many1 digit, Cls (\<lambda>u. u = 46 \<or> u = 45)]) x
         \<and> \<not> test (seqs [Bol, Group 1 (litI preambulo)]) x
         \<and> \<not> test (seqs [Cls (\<lambda>u. u = 46 \<or> u = 58 \<or> u = 59), Eol]) x)
   \<and> buildTree
        [\<lparr>line_text = units ''Portaria n.'' @ [186] @ units '' 123/2024'',
           line_y = 700, isBold = False, page = 1\<rparr>,
         \<lparr>line_text = units ''de regulamenta'' @ [231, 227] @ units ''o do trabalho'',
           line_y = 680, isBold = False, page = 1\<rparr>]
      = [\<lparr>node_type = Root, header = None, node_text = None, children = Some [1]\<rparr>,
         \<lparr>node_type = Diploma,
           header = Some (units ''Portaria n.'' @ [186] @ units '' 123/2024 de regulamenta''
                          @ [231, 227] @ units ''o do trabalho''),
           node_text = None, children = Some []\<rparr>]"
proof (intro conjI impI)
  assume "matchedType (trim (line_text l)) = Some t" "\<not> isStrictPreambulo (trim (line_text l))"
  then show "buildFrom st (l # rest) =
        buildFrom
          (placeNode t
             (newNode t
                (foldl (\<lambda>h x. h @ [32] @ x) (trim (line_text l))
                   (takeWhile looksLikeTitle (map (\<lambda>l. trim (line_text l)) rest))))
             st)
          (dropWhile (\<lambda>l. looksLikeTitle (trim (line_text l))) rest)"
    by (simp add: mergeHeader_takeWhile drop_takeWhile_map)
next
  show "looksLikeTitle x =
        (length x > 0 \<and> length x < 250 \<and> \<not> test articlePattern x
         \<and> \<not> test structurePattern x \<and> \<not> test diplomaPattern x
         \<and> \<not> test (seqs [Bol, many1 digit, Cls (\<lambda>u. u = 46 \<or> u = 45)]) x
         \<and> \<not> test (seqs [Bol, Group 1 (litI preambulo)]) x
         \<and> \<not> test (seqs [Cls (\<lambda>u. u = 46 \<or> u = 58 \<or> u = 59), Eol]) x)"
    by (rule looksLikeTitle_def)
next
  show "buildTree
        [\<lparr>line_text = units ''Portaria n.'' @ [186] @ units '' 123/2024'',
           line_y = 700, isBold = False, page = 1\<rparr>,
         \<lparr>line_text = units ''de regulamenta'' @ [231, 227] @ units ''o do trabalho'',
           line_y = 680, isBold = False, page = 1\<rparr>]
      = [\<lparr>node_type = Root, header = None, node_text = None, children = Some [1]\<rparr>,
         \<lparr>node_type = Diploma,
           header = Some (units ''Portaria n.'' @ [186] @ units '' 123/2024 de regulamenta''
                          @ [231, 227] @ units ''o do trabalho''),
           node_text = None, children = Some []\<rparr>]"
    by (simp add: tree_rules regex_rules)
qed

theorem header_merging_witness:
  "matchedType (trim (units ''Artigo 1.'' @ [186])) = Some Article
   \<and> \<not> isStrictPreambulo (trim (units ''Artigo 1.'' @ [186]))
   \<and> buildFrom initialBuilder
        [\<lparr>line_text = units ''Artigo 1.'' @ [186], line_y = 640, isBold = False, page = 1\<rparr>,
         \<lparr>line_text = units ''Objeto'', line_y = 620, isBold = False, page = 1\<rparr>]
      = buildFrom
          (placeNode Article
             (newNode Article
                (foldl (\<lambda>h x. h @ [32] @ x) (trim (units ''Artigo 1.'' @ [186]))
                   (takeWhile looksLikeTitle
                      (map (\<lambda>l. trim (line_text l))
                         [\<lparr>line_text = units ''Objeto'', line_y = 620, isBold = False,
                            page = 1\<rparr>]))))
             initialBuilder)
          (dropWhile (\<lambda>l. looksLikeTitle (trim (line_text l)))
             [\<lparr>line_text = units ''Objeto'', line_y = 620, isBold = False, page = 1\<rparr>])"
proof -
  have a: "matchedType (trim (units ''Artigo 1.'' @ [186])) = Some Article"
    and b: "\<not> isStrictPreambulo (trim (units ''Artigo 1.'' @ [186]))"
    by (simp_all add: tree_rules regex_rules)
  have eq: "line_text \<lparr>line_text = units ''Artigo 1.'' @ [186], line_y = 640, isBold = False,
              page = 1\<rparr> = units ''Artigo 1.'' @ [186]"
    by simp
  note h = conjunct1 [OF header_merging [of
      "\<lparr>line_text = units ''Artigo 1.'' @ [186], line_y = 640, isBold = False, page = 1\<rparr>"
      Article initialBuilder
      "[\<lparr>line_text = units ''Objeto'', line_y = 620, isBold = False, page = 1\<rparr>]"]]
  from h [unfolded eq] a b show ?thesis by blast
qed

section \<open>Text normalization\<close>

subsection \<open>Character classes\<close>

lemma space_classes:
  "isSpace u \<Longrightarrow> \<not> isDigit u"
  "isSpace u \<Longrightarrow> \<not> inRangeI 97 122 u"
  "isSpace u \<Longrightarrow> \<not> inClassI [45, 8211, 46, 41] u"
  by (auto simp: isSpace_def isDigit_def inRangeI_def inClassI_def canonicalize_def)

lemma digit_classes:
  "isDigit u \<Longrightarrow> \<not> inRangeI 97 122 u"
  "isDigit u \<Longrightarrow> \<not> inClassI [45, 8211, 46, 41] u"
  by (auto simp: isDigit_def inRangeI_def inClassI_def canonicalize_def)

lemma canonicalize_newline: "(canonicalize u = canonicalize 10) = (u = 10)"
  by (auto simp: canonicalize_def)

lemma newline_space: "isSpace 10" "isSpace 32" "(32::nat) \<noteq> 10"
  by (simp_all add: isSpace_def)

subsection \<open>The matcher on a star of a class\<close>

lemma star_cls_Nil: "ms (Star (Cls P)) (b, [], c) = [(b, [], c)]"
  by (simp add: ms_Star)

lemma star_cls_Cons:
  "ms (Star (Cls P)) (b, u # r, c) =
     (if P u then ms (Star (Cls P)) (False, r, c) else []) @ [(b, u # r, c)]"
  by (simp add: ms_Star starNext_apply)

lemma seq_star_Nil: "ms (Seq (Star (Cls P)) q) (b, [], c) = ms q (b, [], c)"
  by (simp add: star_cls_Nil)

lemma seq_star_Cons:
  "ms (Seq (Star (Cls P)) q) (b, u # r, c) =
     (if P u then ms (Seq (Star (Cls P)) q) (False, r, c) else []) @ ms q (b, u # r, c)"
  by (simp add: star_cls_Cons)

lemma star_cls_head:
  "\<exists>rest. ms (Star (Cls P)) (False, s, c) = (False, dropWhile P s, c) # rest"
proof (induction s)
  case Nil
  show ?case by (simp add: star_cls_Nil)
next
  case (Cons u r)
  then obtain rest where "ms (Star (Cls P)) (False, r, c) = (False, dropWhile P r, c) # rest"
    by blast
  then show ?case by (simp add: star_cls_Cons)
qed

subsection \<open>The lookahead is \<open>marker\<close>\<close>

lemma delim_ms:
  "ms (Seq (Cls D) Eps) (b, s, c) =
     (case s of [] \<Rightarrow> [] | u # r \<Rightarrow> if D u then [(False, r, c)] else [])"
  by (simp split: list.splits)

lemma afterToken_ms:
  "(ms (Seq (Star space) (Seq (Cls (inClassI [45, 8211, 46, 41])) Eps)) (False, s, c) \<noteq> [])
     = afterToken s"
proof (induction s)
  case Nil
  show ?case by (simp add: space_def star_cls_Nil)
next
  case (Cons u r)
  show ?case
  proof (cases "isSpace u")
    case True
    with Cons space_classes(3) [OF True] show ?thesis
      unfolding space_def seq_star_Cons delim_ms by simp
  next
    case False
    then show ?thesis unfolding space_def seq_star_Cons delim_ms by simp
  qed
qed

lemma inNumber_ms:
  "(ms (Seq (Star digit)
        (Seq (Star space) (Seq (Cls (inClassI [45, 8211, 46, 41])) Eps))) (False, s, c) \<noteq> [])
     = inNumber s"
proof (induction s)
  case Nil
  have "ms (Seq (Star digit)
        (Seq (Star space) (Seq (Cls (inClassI [45, 8211, 46, 41])) Eps))) (False, [], c)
      = ms (Seq (Star space) (Seq (Cls (inClassI [45, 8211, 46, 41])) Eps)) (False, [], c)"
    unfolding digit_def by (rule seq_star_Nil)
  with afterToken_ms [of "[]" c] show ?case by (simp del: ms.simps)
next
  case (Cons u r)
  let ?q = "Seq (Star space) (Seq (Cls (inClassI [45, 8211, 46, 41])) Eps)"
  have step: "ms (Seq (Star digit) ?q) (False, u # r, c) =
      (if isDigit u then ms (Seq (Star digit) ?q) (False, r, c) else [])
      @ ms ?q (False, u # r, c)"
    unfolding digit_def by (rule seq_star_Cons)
  have "(ms (Seq (Star digit) ?q) (False, u # r, c) \<noteq> []) =
        ((isDigit u \<and> ms (Seq (Star digit) ?q) (False, r, c) \<noteq> [])
         \<or> ms ?q (False, u # r, c) \<noteq> [])"
    unfolding step by (simp del: ms.simps)
  also have "\<dots> = ((isDigit u \<and> inNumber r) \<or> afterToken (u # r))"
    unfolding Cons.IH afterToken_ms ..
  also have "\<dots> = inNumber (u # r)"
    using digit_classes(2) [of u] space_classes(1) [of u] by auto
  finally show ?case .
qed

lemma token_ms:
  "(ms (Seq (Alt (many1 digit) (Cls (inRangeI 97 122)))
        (Seq (Star space) (Seq (Cls (inClassI [45, 8211, 46, 41])) Eps))) (b, s, c) \<noteq> [])
     = (case s of [] \<Rightarrow> False
        | u # r \<Rightarrow> (isDigit u \<and> inNumber r) \<or> (inRangeI 97 122 u \<and> afterToken r))"
proof (cases s)
  case Nil
  show ?thesis unfolding Nil by (simp add: many1_def digit_def)
next
  case (Cons u r)
  let ?q = "Seq (Star space) (Seq (Cls (inClassI [45, 8211, 46, 41])) Eps)"
  have d: "concat (map (ms ?q) (ms (many1 digit) (b, u # r, c))) =
             (if isDigit u then ms (Seq (Star digit) ?q) (False, r, c) else [])"
    by (simp add: many1_def digit_def)
  have a: "concat (map (ms ?q) (ms (Cls (inRangeI 97 122)) (b, u # r, c))) =
             (if inRangeI 97 122 u then ms ?q (False, r, c) else [])"
    by simp
  have step: "ms (Seq (Alt (many1 digit) (Cls (inRangeI 97 122))) ?q) (b, u # r, c) =
        (if isDigit u then ms (Seq (Star digit) ?q) (False, r, c) else [])
        @ (if inRangeI 97 122 u then ms ?q (False, r, c) else [])"
    unfolding ms.simps(6) ms.simps(7) map_append concat_append d a ..
  have "(ms (Seq (Alt (many1 digit) (Cls (inRangeI 97 122))) ?q) (b, u # r, c) \<noteq> []) =
        ((isDigit u \<and> ms (Seq (Star digit) ?q) (False, r, c) \<noteq> [])
         \<or> (inRangeI 97 122 u \<and> ms ?q (False, r, c) \<noteq> []))"
    unfolding step by (simp del: ms.simps)
  also have "\<dots> = ((isDigit u \<and> inNumber r) \<or> (inRangeI 97 122 u \<and> afterToken r))"
    unfolding inNumber_ms afterToken_ms ..
  finally show ?thesis unfolding Cons by simp
qed

lemma marker_ms: "(ms enumMarker (False, s, c) \<noteq> []) = marker s"
proof (induction s)
  case Nil
  let ?t = "Seq (Alt (many1 digit) (Cls (inRangeI 97 122)))
        (Seq (Star space) (Seq (Cls (inClassI [45, 8211, 46, 41])) Eps))"
  have e: "enumMarker = Seq (Star (Cls isSpace)) ?t"
    by (simp add: enumMarker_def space_def)
  have "ms enumMarker (False, [], c) = ms ?t (False, [], c)"
    unfolding e by (rule seq_star_Nil)
  with token_ms [of False "[]" c] show ?case by (simp del: ms.simps)
next
  case (Cons u r)
  let ?t = "Seq (Alt (many1 digit) (Cls (inRangeI 97 122)))
        (Seq (Star space) (Seq (Cls (inClassI [45, 8211, 46, 41])) Eps))"
  have e: "enumMarker = Seq (Star (Cls isSpace)) ?t"
    by (simp add: enumMarker_def space_def)
  have step: "ms enumMarker (False, u # r, c) =
      (if isSpace u then ms enumMarker (False, r, c) else []) @ ms ?t (False, u # r, c)"
    unfolding e by (rule seq_star_Cons)
  have t: "(ms ?t (False, u # r, c) \<noteq> [])
     = ((isDigit u \<and> inNumber r) \<or> (inRangeI 97 122 u \<and> afterToken r))"
    using token_ms [of False "u # r" c] by (simp del: ms.simps)
  have "(ms enumMarker (False, u # r, c) \<noteq> []) =
        ((isSpace u \<and> ms enumMarker (False, r, c) \<noteq> []) \<or> ms ?t (False, u # r, c) \<noteq> [])"
    unfolding step by (simp del: ms.simps)
  also have "\<dots> = ((isSpace u \<and> marker r)
        \<or> (isDigit u \<and> inNumber r) \<or> (inRangeI 97 122 u \<and> afterToken r))"
    unfolding Cons.IH t ..
  also have "\<dots> = marker (u # r)"
    using space_classes [of u] digit_classes(1) [of u] by auto
  finally show ?case .
qed

subsection \<open>The third and fourth step are \<open>unwrapF\<close> and \<open>squeezeF\<close>\<close>

lemma matchAt_newline:
  "matchAt newlineRe b s =
     (case s of [] \<Rightarrow> None
      | u # r \<Rightarrow> if u = 10 \<and> \<not> marker r then Some (r, Map.empty) else None)"
proof (cases s)
  case Nil
  then show ?thesis by (simp add: matchAt_def newlineRe_def chrI_def)
next
  case (Cons u r)
  show ?thesis
  proof (cases "u = 10")
    case True
    have m: "(ms enumMarker (False, r, Map.empty) = []) = (\<not> marker r)"
      using marker_ms [of r Map.empty] by blast
    show ?thesis unfolding Cons True
      by (simp add: matchAt_def newlineRe_def chrI_def canonicalize_newline m)
  next
    case False
    then show ?thesis unfolding Cons
      by (simp add: matchAt_def newlineRe_def chrI_def canonicalize_newline)
  qed
qed

lemma matchAt_spaces:
  "matchAt spacesRe b s =
     (case s of
        u # v # r \<Rightarrow>
          if isSpace u \<and> isSpace v then Some (dropWhile isSpace r, Map.empty) else None
      | _ \<Rightarrow> None)"
proof (cases s)
  case Nil
  then show ?thesis by (simp add: matchAt_def spacesRe_def space_def)
next
  case (Cons u s')
  show ?thesis
  proof (cases s')
    case Nil
    with Cons show ?thesis by (simp add: matchAt_def spacesRe_def space_def)
  next
    case (Cons v r)
    obtain rest where
      "ms (Star (Cls isSpace)) (False, r, Map.empty) = (False, dropWhile isSpace r, Map.empty) # rest"
      using star_cls_head by blast
    with Cons \<open>s = u # s'\<close> show ?thesis
      by (simp add: matchAt_def spacesRe_def space_def)
  qed
qed

lemma replaceAll_Nil:
  "replaceAll False r f b [] = (case matchAt r b [] of None \<Rightarrow> [] | Some (s', c) \<Rightarrow> f c)"
  by simp

lemma replaceAll_Cons:
  "replaceAll False r f b (h # s) =
     (case matchAt r b (h # s) of
        None \<Rightarrow> h # replaceAll False r f False s
      | Some (s', c) \<Rightarrow>
          if length s' < Suc (length s) then f c @ replaceAll False r f False s'
          else f c @ h # replaceAll False r f False s)"
proof (cases s)
  case Nil
  show ?thesis unfolding Nil by (auto split: option.splits)
next
  case (Cons l t)
  show ?thesis unfolding Cons by (auto simp: Let_def split: option.splits)
qed

lemma unwrap_refine: "replaceAll False newlineRe (\<lambda>c. [32]) b s = unwrapF s"
proof (induction s arbitrary: b)
  case Nil
  show ?case unfolding replaceAll_Nil matchAt_newline by simp
next
  case (Cons u r)
  show ?case unfolding replaceAll_Cons matchAt_newline by (simp add: Cons)
qed

lemma squeeze_refine: "replaceAll False spacesRe (\<lambda>c. [32]) b s = squeezeF s"
proof (induction s arbitrary: b rule: squeezeF.induct)
  case 1
  show ?case unfolding replaceAll_Nil matchAt_spaces by simp
next
  case (2 h)
  show ?case unfolding replaceAll_Cons replaceAll_Nil matchAt_spaces by simp
next
  case (3 h l t)
  show ?case
  proof (cases "isSpace h \<and> isSpace l")
    case True
    have "length (dropWhile isSpace t) < Suc (Suc (length t))"
      using length_dropWhile_le [of isSpace t] by simp
    with True "3.IH"(1) [OF True] show ?thesis
      unfolding replaceAll_Cons [of _ _ _ h] matchAt_spaces by simp
  next
    case False
    with "3.IH"(2) [OF False] show ?thesis
      unfolding replaceAll_Cons [of _ _ _ h] matchAt_spaces by auto
  qed
qed


subsection \<open>The lookahead and white space\<close>

lemma afterToken_spaces: "list_all isSpace ws \<Longrightarrow> \<not> afterToken ws"
  by (induction ws) simp_all

lemma inNumber_spaces: "list_all isSpace ws \<Longrightarrow> \<not> inNumber ws"
  by (cases ws) (auto simp: space_classes afterToken_spaces)

lemma marker_spaces: "list_all isSpace ws \<Longrightarrow> \<not> marker ws"
  by (induction ws) simp_all

lemma afterToken_append: "list_all isSpace ws \<Longrightarrow> afterToken (x @ ws) = afterToken x"
  by (induction x) (simp_all add: afterToken_spaces)

lemma inNumber_append: "list_all isSpace ws \<Longrightarrow> inNumber (x @ ws) = inNumber x"
proof (induction x)
  case Nil
  then show ?case by (simp add: inNumber_spaces)
next
  case (Cons u r)
  from afterToken_append [OF Cons.prems, of "u # r"] Cons show ?case by simp
qed

lemma marker_append: "list_all isSpace ws \<Longrightarrow> marker (x @ ws) = marker x"
  by (induction x) (simp_all add: marker_spaces inNumber_append afterToken_append)

lemma afterToken_dropWhile: "afterToken (dropWhile isSpace s) = afterToken s"
  by (induction s) simp_all

lemma marker_dropWhile: "marker (dropWhile isSpace s) = marker s"
  by (induction s) simp_all

lemma inNumber_space: "isSpace u \<Longrightarrow> inNumber (u # r) = afterToken r"
  by (simp add: space_classes)

subsection \<open>Unwrapping\<close>

lemma unwrapF_classes:
  "afterToken (unwrapF s) = afterToken s \<and> inNumber (unwrapF s) = inNumber s
   \<and> marker (unwrapF s) = marker s"
proof (induction s)
  case Nil
  show ?case by simp
next
  case (Cons u r)
  show ?case
  proof (cases "u = 10 \<and> \<not> marker r")
    case True
    then have e: "unwrapF (u # r) = 32 # unwrapF r" and u: "u = 10" by simp_all
    from Cons show ?thesis unfolding e u by (simp add: newline_space space_classes)
  next
    case False
    then have e: "unwrapF (u # r) = u # unwrapF r" by auto
    from Cons show ?thesis unfolding e by simp
  qed
qed

lemma unwrapF_tail: "unwrapF (a # s) = a # s \<Longrightarrow> unwrapF s = s"
  by simp

lemma unwrapF_dropWhile: "unwrapF s = s \<Longrightarrow> unwrapF (dropWhile P s) = dropWhile P s"
  by (induction s) simp_all

lemma unwrapF_head: "unwrapF (a # s) = a # s \<Longrightarrow> a = 10 \<Longrightarrow> marker s"
  by (simp add: newline_space split: if_splits)

lemma unwrapF_idem: "unwrapF (unwrapF s) = unwrapF s"
proof (induction s)
  case Nil
  show ?case by simp
next
  case (Cons u r)
  from unwrapF_classes [of r] have "marker (unwrapF r) = marker r" by simp
  with Cons show ?case by (simp add: newline_space)
qed

lemma unwrapF_prefix:
  "unwrapF (x @ ws) = x @ ws \<Longrightarrow> list_all isSpace ws \<Longrightarrow> unwrapF x = x"
proof (induction x)
  case Nil
  show ?case by simp
next
  case (Cons a x)
  from Cons.prems(1) have t: "unwrapF (x @ ws) = x @ ws"
    and h: "(if a = 10 \<and> \<not> marker (x @ ws) then 32 else a) = a" by simp_all
  from h marker_append [OF Cons.prems(2), of x] have "\<not> (a = 10 \<and> \<not> marker x)"
    by (auto simp: newline_space split: if_splits)
  with Cons.IH [OF t Cons.prems(2)] show ?case by simp
qed

subsection \<open>Squeezing\<close>

lemma squeezeF_classes:
  "afterToken (squeezeF s) = afterToken s \<and> inNumber (squeezeF s) = inNumber s
   \<and> marker (squeezeF s) = marker s"
proof (induction s rule: squeezeF.induct)
  case 1
  show ?case by simp
next
  case (2 h)
  show ?case by simp
next
  case (3 h l t)
  show ?case
  proof (cases "isSpace h \<and> isSpace l")
    case True
    with "3.IH"(1) [OF True] show ?thesis
      by (simp add: newline_space space_classes afterToken_dropWhile marker_dropWhile)
  next
    case False
    with "3.IH"(2) [OF False] show ?thesis by simp
  qed
qed

lemma squeezeF_Nil: "(squeezeF s = []) = (s = [])"
  by (induction s rule: squeezeF.induct) simp_all

lemma squeezeF_hd: "s \<noteq> [] \<Longrightarrow> isSpace (hd (squeezeF s)) = isSpace (hd s)"
  by (induction s rule: squeezeF.induct) (simp_all add: newline_space)

lemma noDouble_Cons:
  "noDouble (h # s) = (noDouble s \<and> (s \<noteq> [] \<longrightarrow> \<not> (isSpace h \<and> isSpace (hd s))))"
  by (cases s) auto

lemma noDouble_squeezeF: "noDouble (squeezeF s)"
proof (induction s rule: squeezeF.induct)
  case 1
  show ?case by simp
next
  case (2 h)
  show ?case by simp
next
  case (3 h l t)
  show ?case
  proof (cases "isSpace h \<and> isSpace l")
    case True
    have "dropWhile isSpace t \<noteq> [] \<Longrightarrow> \<not> isSpace (hd (squeezeF (dropWhile isSpace t)))"
      using squeezeF_hd [of "dropWhile isSpace t"] hd_dropWhile [of isSpace t] by simp
    moreover from True have e: "squeezeF (h # l # t) = 32 # squeezeF (dropWhile isSpace t)"
      by simp
    ultimately show ?thesis using "3.IH"(1) [OF True]
      unfolding e by (simp add: noDouble_Cons squeezeF_Nil newline_space)
  next
    case False
    then have e: "squeezeF (h # l # t) = h # squeezeF (l # t)" by auto
    from False "3.IH"(2) [OF False] squeezeF_hd [of "l # t"] show ?thesis
      unfolding e by (simp add: noDouble_Cons squeezeF_Nil)
  qed
qed

lemma squeezeF_fixed: "noDouble s \<Longrightarrow> squeezeF s = s"
  by (induction s rule: squeezeF.induct) auto

lemma noDouble_dropWhile: "noDouble s \<Longrightarrow> noDouble (dropWhile P s)"
  by (induction s) (simp_all add: noDouble_Cons)

lemma noDouble_take: "noDouble s \<Longrightarrow> noDouble (take k s)"
proof (induction s arbitrary: k)
  case Nil
  show ?case by simp
next
  case (Cons h s)
  show ?case
  proof (cases k)
    case 0
    then show ?thesis by simp
  next
    case (Suc k')
    from Cons.prems have n: "noDouble s" and hh: "s \<noteq> [] \<longrightarrow> \<not> (isSpace h \<and> isSpace (hd s))"
      by (simp_all add: noDouble_Cons)
    have "take k' s \<noteq> [] \<Longrightarrow> hd (take k' s) = hd s" by (cases s; cases k') simp_all
    with Cons.IH [OF n, of k'] hh Suc show ?thesis
      by (auto simp: noDouble_Cons)
  qed
qed

lemma unwrapF_squeezeF: "unwrapF s = s \<Longrightarrow> unwrapF (squeezeF s) = squeezeF s"
proof (induction s rule: squeezeF.induct)
  case 1
  show ?case by simp
next
  case (2 h)
  then show ?case by simp
next
  case (3 h l t)
  from "3.prems" have lt: "unwrapF (l # t) = l # t" by (rule unwrapF_tail)
  then have t: "unwrapF t = t" by (rule unwrapF_tail)
  show ?case
  proof (cases "isSpace h \<and> isSpace l")
    case True
    from "3.IH"(1) [OF True unwrapF_dropWhile [OF t]] True show ?thesis
      by (simp add: newline_space)
  next
    case False
    have "h = 10 \<Longrightarrow> marker (squeezeF (l # t))"
      using unwrapF_head [OF "3.prems"] squeezeF_classes [of "l # t"] by simp
    with "3.IH"(2) [OF False lt] False show ?thesis by auto
  qed
qed

subsection \<open>Trimming\<close>

lemma trimEnd_split:
  "s = rev (dropWhile P (rev s)) @ rev (takeWhile P (rev s))"
  by (metis rev_append rev_rev_ident takeWhile_dropWhile_id)

lemma trimEnd_take:
  "rev (dropWhile P (rev s)) = take (length (rev (dropWhile P (rev s)))) s"
  using trimEnd_split [of s P] by (metis append_eq_conv_conj)

lemma unwrapF_trim: "unwrapF s = s \<Longrightarrow> unwrapF (trim s) = trim s"
proof -
  assume "unwrapF s = s"
  then have d: "unwrapF (dropWhile isSpace s) = dropWhile isSpace s"
    by (rule unwrapF_dropWhile)
  let ?y = "dropWhile isSpace s"
  have sp: "list_all isSpace (rev (takeWhile isSpace (rev ?y)))"
    by (simp add: list_all_iff) (metis set_takeWhileD)
  from d trimEnd_split [of ?y isSpace]
  have "unwrapF (rev (dropWhile isSpace (rev ?y)) @ rev (takeWhile isSpace (rev ?y)))
        = rev (dropWhile isSpace (rev ?y)) @ rev (takeWhile isSpace (rev ?y))" by simp
  from unwrapF_prefix [OF this sp] show ?thesis by (simp add: trim_def)
qed

lemma noDouble_trim: "noDouble s \<Longrightarrow> noDouble (trim s)"
proof -
  assume "noDouble s"
  then have "noDouble (dropWhile isSpace s)" by (rule noDouble_dropWhile)
  then have "noDouble (take (length (rev (dropWhile isSpace (rev (dropWhile isSpace s)))))
                         (dropWhile isSpace s))"
    by (rule noDouble_take)
  then show ?thesis unfolding trim_def trimEnd_take [symmetric] .
qed

lemma trim_idem: "trim (trim s) = trim s"
proof -
  let ?y = "dropWhile isSpace s"
  let ?z = "rev (dropWhile isSpace (rev ?y))"
  have z: "trim s = ?z" by (simp add: trim_def)
  have front: "dropWhile isSpace ?z = ?z"
  proof (cases "?z = []")
    case True
    show ?thesis unfolding True by simp
  next
    case False
    from trimEnd_split [of ?y isSpace] False have "hd ?z = hd ?y" and "?y \<noteq> []"
      by (metis hd_append2, metis append_is_Nil_conv)
    with hd_dropWhile [of isSpace s] have "\<not> isSpace (hd ?z)" by simp
    with False show ?thesis by (cases ?z) simp_all
  qed
  have rear: "dropWhile isSpace (rev ?z) = rev ?z" by simp
  show ?thesis unfolding z unfolding trim_def front rear by simp
qed

subsection \<open>The last three steps do nothing to their own output\<close>

lemma tail_fixed:
  "unwrapF (trim (squeezeF (unwrapF v))) = trim (squeezeF (unwrapF v))"
  "squeezeF (trim (squeezeF (unwrapF v))) = trim (squeezeF (unwrapF v))"
  "trim (trim (squeezeF (unwrapF v))) = trim (squeezeF (unwrapF v))"
proof -
  show "unwrapF (trim (squeezeF (unwrapF v))) = trim (squeezeF (unwrapF v))"
    by (intro unwrapF_trim unwrapF_squeezeF unwrapF_idem)
  show "squeezeF (trim (squeezeF (unwrapF v))) = trim (squeezeF (unwrapF v))"
    by (intro squeezeF_fixed noDouble_trim noDouble_squeezeF)
  show "trim (trim (squeezeF (unwrapF v))) = trim (squeezeF (unwrapF v))"
    by (rule trim_idem)
qed

lemma cleanNodeText_tail:
  "cleanNodeText L s =
     (if s \<noteq> [] then trim (squeezeF (unwrapF (joinWrapped L (joinSpaced L s)))) else s)"
  by (simp add: cleanNodeText_def unwrapLines_def collapseSpaces_def unwrap_refine squeeze_refine)


subsection \<open>Normalizing twice\<close>

lemmas clean_rules =
  cleanNodeText_def joinSpaced_def joinWrapped_def unwrapLines_def collapseSpaces_def
  letterGapRe_def wrapRe_def enumMarker_def newlineRe_def spacesRe_def dollar12_def
  latin1Letter_def

lemma clean_sample1: "cleanNodeText latin1Letter (units ''a - b - c'') = units ''ab - c''"
  by (simp add: clean_rules regex_rules)

lemma clean_sample2: "cleanNodeText latin1Letter (units ''ab - c'') = units ''abc''"
  by (simp add: clean_rules regex_rules)

lemma clean_sample3:
  "cleanNodeText latin1Letter
     (units ''traba-'' @ [10] @ units ''lho  e'' @ [10] @ units ''1. item'')
   = units ''trabalho e'' @ [10] @ units ''1. item''"
  by (simp add: clean_rules regex_rules)

text \<open>
  C1, as the claim states it, fails: the first step replaces the matches it finds from
  left to right without looking again at the text it has just joined, so of two splits
  that share a letter it joins one. "a - b - c" is normalized to "ab - c", and "ab - c"
  is normalized to "abc".
\<close>

theorem cleaning_twice_differs:
  "cleanNodeText latin1Letter (units ''a - b - c'') = units ''ab - c''
   \<and> cleanNodeText latin1Letter (units ''ab - c'') = units ''abc''
   \<and> cleanNodeText latin1Letter (cleanNodeText latin1Letter (units ''a - b - c''))
       \<noteq> cleanNodeText latin1Letter (units ''a - b - c'')"
  by (simp add: clean_sample1 clean_sample2) (simp add: units_def)

text \<open>
  C1, amended. Whatever the table of letters: when the normalized text holds no split
  left for the two joining steps (each of them leaves it as it is), normalizing it again
  changes nothing. The last three steps, which replace newlines, collapse white space and
  trim, never change their own output.
\<close>

theorem cleaning_twice_when_joined:
  "joinSpaced L (cleanNodeText L s) = cleanNodeText L s \<Longrightarrow>
   joinWrapped L (cleanNodeText L s) = cleanNodeText L s \<Longrightarrow>
   cleanNodeText L (cleanNodeText L s) = cleanNodeText L s"
proof (cases "s = []")
  case True
  then show ?thesis by (simp add: cleanNodeText_def)
next
  case False
  assume j1: "joinSpaced L (cleanNodeText L s) = cleanNodeText L s"
    and j2: "joinWrapped L (cleanNodeText L s) = cleanNodeText L s"
  let ?v = "joinWrapped L (joinSpaced L s)"
  let ?t = "trim (squeezeF (unwrapF ?v))"
  from False have t: "cleanNodeText L s = ?t" by (simp add: cleanNodeText_tail)
  from j1 j2 have "joinWrapped L (joinSpaced L ?t) = ?t" unfolding t by simp
  then have "cleanNodeText L ?t = (if ?t \<noteq> [] then trim (squeezeF (unwrapF ?t)) else ?t)"
    unfolding cleanNodeText_tail [of L ?t] by simp
  also have "\<dots> = ?t" by (simp add: tail_fixed)
  finally show ?thesis unfolding t .
qed

theorem cleaning_twice_when_joined_witness:
  "joinSpaced latin1Letter (units ''trabalho e'' @ [10] @ units ''1. item'')
     = units ''trabalho e'' @ [10] @ units ''1. item''
   \<and> joinWrapped latin1Letter (units ''trabalho e'' @ [10] @ units ''1. item'')
     = units ''trabalho e'' @ [10] @ units ''1. item''
   \<and> cleanNodeText latin1Letter
       (cleanNodeText latin1Letter
          (units ''traba-'' @ [10] @ units ''lho  e'' @ [10] @ units ''1. item''))
     = cleanNodeText latin1Letter
         (units ''traba-'' @ [10] @ units ''lho  e'' @ [10] @ units ''1. item'')"
proof -
  have j1: "joinSpaced latin1Letter (units ''trabalho e'' @ [10] @ units ''1. item'')
     = units ''trabalho e'' @ [10] @ units ''1. item''"
    by (simp add: clean_rules regex_rules)
  have j2: "joinWrapped latin1Letter (units ''trabalho e'' @ [10] @ units ''1. item'')
     = units ''trabalho e'' @ [10] @ units ''1. item''"
    by (simp add: clean_rules regex_rules)
  from cleaning_twice_when_joined [of latin1Letter
      "units ''traba-'' @ [10] @ units ''lho  e'' @ [10] @ units ''1. item''",
      unfolded clean_sample3, OF j1 j2] j1 j2
  show ?thesis unfolding clean_sample3 by simp
qed
end
